theory Spec2Isabelle
  imports Main "HOL-Library.Finite_Map"
begin

section \<open>Python values used by the pipeline\<close>

text \<open>
  Exceptions of the interpreter that the modelled code can meet. \<open>EngineError\<close> stands
  for any subclass of \<open>Exception\<close> raised inside the recognition call
  (\<open>Image.fromarray\<close>, \<open>pytesseract.image_to_string\<close>); its argument is the message.
\<close>

datatype py_error = OverflowError | ValueError | ZeroDivisionError | EngineError string

text \<open>
  A Python \<open>float\<close> is an IEEE 754 binary64 value. A finite one is represented by the
  rational number it denotes (the sign of zero is not kept: no operation of the pipeline
  observes it).
\<close>

datatype pyfloat = Finite rat | PosInf | NegInf | NaN

text \<open>A JSON number is read as an \<open>int\<close> or as a \<open>float\<close>.\<close>

datatype pynum = PyInt int | PyFloat pyfloat

fun bit_length :: "nat \<Rightarrow> nat" where
  "bit_length n = (if n = 0 then 0 else Suc (bit_length (n div 2)))"

declare bit_length.simps [simp del]

definition pow2 :: "int \<Rightarrow> rat" where
  "pow2 e = (if 0 \<le> e then 2 ^ nat e else 1 / 2 ^ nat (- e))"

text \<open>For \<open>q > 0\<close>: the exponent \<open>k\<close> of the leading bit, \<open>2^k \<le> q < 2^(k+1)\<close>.\<close>

definition ilog2 :: "rat \<Rightarrow> int" where
  "ilog2 q =
     (if 1 \<le> q then int (bit_length (nat \<lfloor>q\<rfloor>)) - 1
      else - int (bit_length (nat (\<lceil>1 / q\<rceil> - 1))))"

definition round_half_even :: "rat \<Rightarrow> int" where
  "round_half_even q =
     (let n = \<lfloor>q\<rfloor>; r = q - of_int n
      in if r < 1 / 2 then n
         else if 1 / 2 < r then n + 1
         else if even n then n else n + 1)"

text \<open>
  Rounding of an exact result to binary64, to nearest with ties to even: 53 significant
  bits, least exponent \<open>-1074\<close> (subnormal numbers), overflow to infinity from \<open>2^1024\<close>.
\<close>

definition round_double :: "rat \<Rightarrow> pyfloat" where
  "round_double q =
     (if q = 0 then Finite 0
      else
        let a = \<bar>q\<bar>;
            e = max (ilog2 a - 52) (- 1074);
            m = round_half_even (a / pow2 e);
            r = of_int m * pow2 e
        in if pow2 1024 \<le> r then (if 0 < q then PosInf else NegInf)
           else Finite (if 0 < q then r else - r))"

text \<open>\<open>float(n)\<close> for an \<open>int\<close>: raises \<open>OverflowError\<close> beyond the binary64 range.\<close>

definition float_of_int :: "int \<Rightarrow> py_error + pyfloat" where
  "float_of_int n =
     (case round_double (of_int n) of
        Finite q \<Rightarrow> Inr (Finite q)
      | _ \<Rightarrow> Inl OverflowError)"

text \<open>\<open>a * b\<close> on two floats.\<close>

fun float_mul :: "pyfloat \<Rightarrow> pyfloat \<Rightarrow> pyfloat" where
  "float_mul (Finite a) (Finite b) = round_double (a * b)"
| "float_mul NaN _ = NaN"
| "float_mul _ NaN = NaN"
| "float_mul (Finite a) PosInf = (if a = 0 then NaN else if 0 < a then PosInf else NegInf)"
| "float_mul (Finite a) NegInf = (if a = 0 then NaN else if 0 < a then NegInf else PosInf)"
| "float_mul PosInf (Finite b) = (if b = 0 then NaN else if 0 < b then PosInf else NegInf)"
| "float_mul NegInf (Finite b) = (if b = 0 then NaN else if 0 < b then NegInf else PosInf)"
| "float_mul PosInf PosInf = PosInf"
| "float_mul PosInf NegInf = NegInf"
| "float_mul NegInf PosInf = NegInf"
| "float_mul NegInf NegInf = PosInf"

text \<open>
  \<open>v * n\<close> for a JSON number \<open>v\<close> and an \<open>int\<close> \<open>n\<close>: integer arithmetic when \<open>v\<close> is
  an \<open>int\<close>, otherwise \<open>n\<close> is converted to \<open>float\<close> first.
\<close>

definition num_mul_int :: "pynum \<Rightarrow> int \<Rightarrow> py_error + pynum" where
  "num_mul_int v n =
     (case v of
        PyInt a \<Rightarrow> Inr (PyInt (a * n))
      | PyFloat f \<Rightarrow>
          (case float_of_int n of
             Inl e \<Rightarrow> Inl e
           | Inr g \<Rightarrow> Inr (PyFloat (float_mul f g))))"

text \<open>Truncation toward zero.\<close>

definition trunc :: "rat \<Rightarrow> int" where
  "trunc q = (if 0 \<le> q then \<lfloor>q\<rfloor> else \<lceil>q\<rceil>)"

text \<open>
  \<open>int(v)\<close>: the identity on an \<open>int\<close>, truncation toward zero on a finite \<open>float\<close>,
  \<open>OverflowError\<close> on an infinity, \<open>ValueError\<close> on a NaN.
\<close>

fun py_int :: "pynum \<Rightarrow> py_error + int" where
  "py_int (PyInt a) = Inr a"
| "py_int (PyFloat (Finite q)) = Inr (trunc q)"
| "py_int (PyFloat PosInf) = Inl OverflowError"
| "py_int (PyFloat NegInf) = Inl OverflowError"
| "py_int (PyFloat NaN) = Inl ValueError"

text \<open>
  \<open>a / b\<close> on two \<open>int\<close>s (true division): the binary64 value nearest to the exact
  quotient.
\<close>

definition int_truediv :: "int \<Rightarrow> int \<Rightarrow> py_error + pyfloat" where
  "int_truediv a b =
     (if b = 0 then Inl ZeroDivisionError
      else case round_double (of_int a / of_int b) of
             Finite q \<Rightarrow> Inr (Finite q)
           | _ \<Rightarrow> Inl OverflowError)"

section \<open>Zone rectangles\<close>

text \<open>One entry of a zone layout: \<open>{"x": .., "y": .., "width": .., "height": ..}\<close>.\<close>

record zone =
  zone_x :: pynum
  zone_y :: pynum
  zone_width :: pynum
  zone_height :: pynum

text \<open>\<open>int(v * n)\<close>, as in \<open>int(zone['x'] * self.target_width)\<close>.\<close>

definition scale :: "pynum \<Rightarrow> int \<Rightarrow> py_error + int" where
  "scale v n = (case num_mul_int v n of Inl e \<Rightarrow> Inl e | Inr p \<Rightarrow> py_int p)"

text \<open>
  The four assignments \<open>x, y, w, h\<close> of \<open>_process_side\<close> (lines 131 to 134), in their
  order; the first one that raises ends the computation.
\<close>

definition zone_rect :: "int \<Rightarrow> int \<Rightarrow> zone \<Rightarrow> py_error + (int \<times> int \<times> int \<times> int)" where
  "zone_rect target_width target_height z =
     (case scale (zone_x z) target_width of Inl e \<Rightarrow> Inl e | Inr x \<Rightarrow>
      case scale (zone_y z) target_height of Inl e \<Rightarrow> Inl e | Inr y \<Rightarrow>
      case scale (zone_width z) target_width of Inl e \<Rightarrow> Inl e | Inr w \<Rightarrow>
      case scale (zone_height z) target_height of Inl e \<Rightarrow> Inl e | Inr h \<Rightarrow>
        Inr (x, y, w, h))"

text \<open>
  The rectangle of the specification: each product rounded to the nearest integer
  (Python's \<open>round\<close>, ties to even).
\<close>

definition scale_rounded :: "pynum \<Rightarrow> int \<Rightarrow> py_error + int" where
  "scale_rounded v n =
     (case num_mul_int v n of
        Inl e \<Rightarrow> Inl e
      | Inr (PyInt a) \<Rightarrow> Inr a
      | Inr (PyFloat (Finite q)) \<Rightarrow> Inr (round_half_even q)
      | Inr (PyFloat NaN) \<Rightarrow> Inl ValueError
      | Inr (PyFloat _) \<Rightarrow> Inl OverflowError)"

definition zone_rect_rounded :: "int \<Rightarrow> int \<Rightarrow> zone \<Rightarrow> py_error + (int \<times> int \<times> int \<times> int)" where
  "zone_rect_rounded target_width target_height z =
     (case scale_rounded (zone_x z) target_width of Inl e \<Rightarrow> Inl e | Inr x \<Rightarrow>
      case scale_rounded (zone_y z) target_height of Inl e \<Rightarrow> Inl e | Inr y \<Rightarrow>
      case scale_rounded (zone_width z) target_width of Inl e \<Rightarrow> Inl e | Inr w \<Rightarrow>
      case scale_rounded (zone_height z) target_height of Inl e \<Rightarrow> Inl e | Inr h \<Rightarrow>
        Inr (x, y, w, h))"

text \<open>
  The zone \<open>{x: 0.1, y: 0.1, width: 0.2, height: 0.05}\<close>: each literal denotes the
  binary64 value nearest to the decimal fraction.
\<close>

definition example_zone :: zone where
  "example_zone =
     \<lparr>zone_x = PyFloat (round_double (1 / 10)),
      zone_y = PyFloat (round_double (1 / 10)),
      zone_width = PyFloat (round_double (2 / 10)),
      zone_height = PyFloat (round_double (5 / 100))\<rparr>"

section \<open>Images and text\<close>

text \<open>
  A \<open>numpy\<close> array: its shape and its elements in row-major order. \<open>size_nd\<close> is the
  attribute \<open>.size\<close>, the product of the dimensions.
\<close>

record ndarray =
  shape :: "nat list"
  elems :: "nat list"

definition size_nd :: "ndarray \<Rightarrow> nat" where
  "size_nd a = prod_list (shape a)"

fun chunks :: "nat \<Rightarrow> 'a list \<Rightarrow> 'a list list" where
  "chunks n xs = (if n = 0 \<or> xs = [] then [] else take n xs # chunks n (drop n xs))"

declare chunks.simps [simp del]

text \<open>\<open>a[..., ::-1]\<close>: the last axis reversed (BGR to RGB on a colour image).\<close>

definition flip_last_axis :: "ndarray \<Rightarrow> ndarray" where
  "flip_last_axis a = a\<lparr>elems := concat (map rev (chunks (last (shape a)) (elems a)))\<rparr>"

text \<open>
  A Python \<open>str\<close> holding recognised text is a list of Unicode code points; field names
  and other identifiers of the program are ASCII and are kept as \<open>string\<close>.
\<close>

type_synonym ustring = "nat list"

text \<open>\<open>s.strip()\<close>, for the whitespace predicate \<open>sp\<close> (\<open>str.isspace\<close> on one character).\<close>

definition py_strip :: "(nat \<Rightarrow> bool) \<Rightarrow> ustring \<Rightarrow> ustring" where
  "py_strip sp s = rev (dropWhile sp (rev (dropWhile sp s)))"

text \<open>
  \<open>s.split()\<close>: the maximal runs of non-whitespace characters, in order. \<open>cur\<close> is the
  run being read.
\<close>

fun split_from :: "(nat \<Rightarrow> bool) \<Rightarrow> ustring \<Rightarrow> ustring \<Rightarrow> ustring list" where
  "split_from sp cur [] = (if cur = [] then [] else [cur])"
| "split_from sp cur (c # cs) =
     (if sp c then (if cur = [] then split_from sp [] cs else cur # split_from sp [] cs)
      else split_from sp (cur @ [c]) cs)"

definition py_split :: "(nat \<Rightarrow> bool) \<Rightarrow> ustring \<Rightarrow> ustring list" where
  "py_split sp s = split_from sp [] s"

text \<open>\<open>sep.join(ws)\<close>.\<close>

fun py_join :: "ustring \<Rightarrow> ustring list \<Rightarrow> ustring" where
  "py_join sep [] = []"
| "py_join sep [w] = w"
| "py_join sep (w # v # ws) = w @ sep @ py_join sep (v # ws)"

text \<open>
  \<open>s.upper()\<close>: every character is replaced by its full uppercase mapping \<open>up\<close>, which
  may be several characters long.
\<close>

definition py_upper :: "(nat \<Rightarrow> nat list) \<Rightarrow> ustring \<Rightarrow> ustring" where
  "py_upper up s = concat (map up s)"

section \<open>The processor and its collaborators\<close>

text \<open>
  The classes \<open>ZoneReader\<close>, \<open>DocumentDetector\<close>, \<open>ImageNormalizer\<close> and
  \<open>ResultValidator\<close> and the library \<open>pytesseract\<close> are used through their methods
  only. Each method is a parameter of the model: a function of its arguments and of the
  state \<open>'w\<close> of everything outside the processor (caches, files, the engine's process),
  returning its result and the next state. \<open>calls\<close> records, in order, which of them
  have been invoked and with which arguments.

  The collaborators are taken with the types of their contracts: \<open>decode_base64\<close>
  returns an array or \<open>None\<close>; \<open>load_zones\<close> stands for \<open>load_zones(side)['zones']\<close>,
  a dictionary from field names to zones with their four numbers; \<open>validate_all\<close>
  returns a dictionary of strings; none of them raises, except the engine call
  \<open>image_to_string\<close>. \<open>tesseract_available\<close> is the module flag
  \<open>TESSERACT_AVAILABLE\<close>; \<open>isspace\<close> and \<open>toupper\<close> are the interpreter's Unicode
  tables for \<open>str.isspace\<close> and \<open>str.upper\<close>. Messages printed by the service are not
  modelled.
\<close>

datatype call =
    DecodeBase64 string
  | DetectorProcess ndarray
  | NormalizeDocument ndarray
  | LoadZones string
  | CropZone ndarray int int int int
  | ImageToString ndarray
  | CleanText ustring
  | ValidateAll "(string, ustring) fmap"

record 'w pstate =
  world :: 'w
  calls :: "call list"

record 'w processor =
  decode_base64 :: "string \<Rightarrow> 'w \<Rightarrow> ndarray option \<times> 'w"
  detector_process :: "ndarray \<Rightarrow> 'w \<Rightarrow> (ndarray \<times> bool) \<times> 'w"
  normalize_document :: "ndarray \<Rightarrow> 'w \<Rightarrow> ndarray \<times> 'w"
  load_zones :: "string \<Rightarrow> 'w \<Rightarrow> (string \<Rightarrow> zone option) \<times> 'w"
  crop_zone :: "ndarray \<Rightarrow> int \<Rightarrow> int \<Rightarrow> int \<Rightarrow> int \<Rightarrow> 'w \<Rightarrow> ndarray \<times> 'w"
  clean_text :: "ustring \<Rightarrow> 'w \<Rightarrow> ustring \<times> 'w"
  validate_all :: "(string, ustring) fmap \<Rightarrow> 'w \<Rightarrow> (string, ustring) fmap \<times> 'w"
  tesseract_available :: bool
  image_to_string :: "ndarray \<Rightarrow> 'w \<Rightarrow> (py_error + ustring) \<times> 'w"
  isspace :: "nat \<Rightarrow> bool"
  toupper :: "nat \<Rightarrow> nat list"
  target_width :: int
  target_height :: int

definition invoke :: "call \<Rightarrow> ('w \<Rightarrow> 'a \<times> 'w) \<Rightarrow> 'w pstate \<Rightarrow> 'a \<times> 'w pstate" where
  "invoke c f s = (case f (world s) of (r, w') \<Rightarrow> (r, \<lparr>world = w', calls = calls s @ [c]\<rparr>))"

definition FRONT_FIELDS :: "string list" where
  "FRONT_FIELDS =
     [''f_nazwisko'', ''f_imiona'', ''f_obywatelstwo'', ''f_data_urodzenia'',
      ''f_plec'', ''f_numer_ID'', ''f_data_waznosci'', ''f_numer_kodu'']"

definition BACK_FIELDS :: "string list" where
  "BACK_FIELDS =
     [''b_seria_id'', ''b_numer_id'', ''b_numer_ident'', ''b_data_wydania'',
      ''b_kto_wydal'', ''b_imiona_rodzicow'', ''b_nazwisko_rodowe'',
      ''b_miejsce_urodzenia'', ''MRZ'']"

section \<open>The recognition service\<close>

text \<open>
  \<open>OCRService.extract_text_from_roi\<close>. The body of the \<open>try\<close> block is the colour
  conversion \<open>to_rgb\<close> (lines 123 to 126), \<open>Image.fromarray\<close> and
  \<open>pytesseract.image_to_string\<close> (one collaborator, \<open>image_to_string\<close>, which may
  raise) and the cleaning of the text; the handler \<open>except Exception\<close> returns the
  empty string.
\<close>

definition to_rgb :: "ndarray \<Rightarrow> ndarray" where
  "to_rgb image_array =
     (if length (shape image_array) = 3 then flip_last_axis image_array else image_array)"

definition extract_text_from_roi ::
  "'w processor \<Rightarrow> ndarray \<Rightarrow> 'w pstate \<Rightarrow> ustring \<times> 'w pstate" where
  "extract_text_from_roi p image_array s =
     (if \<not> tesseract_available p then ([], s)
      else
        let rgb_image = to_rgb image_array
        in case invoke (ImageToString rgb_image) (image_to_string p rgb_image) s of
             (Inl e, s') \<Rightarrow> ([], s')
           | (Inr text, s') \<Rightarrow>
               (let cleaned = py_strip (isspace p) text;
                    cleaned = py_join [32] (py_split (isspace p) cleaned)
                in (py_upper (toupper p) cleaned, s')))"

section \<open>Processing one side\<close>

text \<open>
  The body of the loop of \<open>_process_side\<close> (lines 124 to 149) for one field: the text
  stored in \<open>results[field]\<close>, or the exception raised by the coordinate computation.
\<close>

definition process_field ::
  "'w processor \<Rightarrow> ndarray \<Rightarrow> (string \<Rightarrow> zone option) \<Rightarrow> string \<Rightarrow> 'w pstate
     \<Rightarrow> (py_error + ustring) \<times> 'w pstate" where
  "process_field p corrected zones field s =
     (case zones field of
        None \<Rightarrow> (Inr [], s)
      | Some zone \<Rightarrow>
          (case zone_rect (target_width p) (target_height p) zone of
             Inl e \<Rightarrow> (Inl e, s)
           | Inr (x, y, w, h) \<Rightarrow>
               (case invoke (CropZone corrected x y w h) (crop_zone p corrected x y w h) s of
                  (cropped, s1) \<Rightarrow>
                    if size_nd cropped = 0 then (Inr [], s1)
                    else
                      (case extract_text_from_roi p cropped s1 of
                         (text, s2) \<Rightarrow>
                           (case invoke (CleanText text) (clean_text p text) s2 of
                              (text', s3) \<Rightarrow> (Inr text', s3))))))"

text \<open>The loop \<open>for field in fields\<close>, filling the dictionary \<open>results\<close>.\<close>

fun extract_fields ::
  "'w processor \<Rightarrow> ndarray \<Rightarrow> (string \<Rightarrow> zone option) \<Rightarrow> string list
     \<Rightarrow> (string, ustring) fmap \<Rightarrow> 'w pstate
     \<Rightarrow> (py_error + (string, ustring) fmap) \<times> 'w pstate" where
  "extract_fields p corrected zones [] results s = (Inr results, s)"
| "extract_fields p corrected zones (field # field_names) results s =
     (case process_field p corrected zones field s of
        (Inl e, s') \<Rightarrow> (Inl e, s')
      | (Inr text, s') \<Rightarrow>
          extract_fields p corrected zones field_names (fmupd field text results) s')"

text \<open>The dictionary \<open>{field: "" for field in fields}\<close>.\<close>

definition empty_result :: "string list \<Rightarrow> (string, ustring) fmap" where
  "empty_result field_names = fmap_of_list (map (\<lambda>field. (field, [])) field_names)"

text \<open>\<open>IDCardOCRProcessor._process_side\<close>.\<close>

definition process_side ::
  "'w processor \<Rightarrow> string \<Rightarrow> string \<Rightarrow> string list \<Rightarrow> 'w pstate
     \<Rightarrow> (py_error + (string, ustring) fmap) \<times> 'w pstate" where
  "process_side p image_base64 side field_names s =
     (case invoke (DecodeBase64 image_base64) (decode_base64 p image_base64) s of
        (None, s1) \<Rightarrow> (Inr (empty_result field_names), s1)
      | (Some img, s1) \<Rightarrow>
          if size_nd img = 0 then (Inr (empty_result field_names), s1)
          else
            (case invoke (DetectorProcess img) (detector_process p img) s1 of
               ((corrected, detected), s2) \<Rightarrow>
                 (case (if \<not> detected
                        then invoke (NormalizeDocument img) (normalize_document p img) s2
                        else (corrected, s2)) of
                    (corrected, s3) \<Rightarrow>
                      (case invoke (LoadZones side) (load_zones p side) s3 of
                         (zones, s4) \<Rightarrow>
                           (case extract_fields p corrected zones field_names fmempty s4 of
                              (Inl e, s5) \<Rightarrow> (Inl e, s5)
                            | (Inr results, s5) \<Rightarrow>
                                (case invoke (ValidateAll results) (validate_all p results) s5 of
                                   (results, s6) \<Rightarrow> (Inr results, s6)))))))"

text \<open>
  The steps of \<open>_process_side\<close> before the loop (lines 104 to 121): decoding, geometry
  correction and loading of the layout. The result is \<open>None\<close> when the early return of
  line 108 is taken, and otherwise the corrected image and the zones with which the loop
  starts. Lemma \<open>process_side_setup_eq\<close> below shows that \<open>process_side\<close> is these
  steps followed by the loop and the validation.
\<close>

definition process_side_setup ::
  "'w processor \<Rightarrow> string \<Rightarrow> string \<Rightarrow> 'w pstate
     \<Rightarrow> (ndarray \<times> (string \<Rightarrow> zone option)) option \<times> 'w pstate" where
  "process_side_setup p image_base64 side s =
     (case invoke (DecodeBase64 image_base64) (decode_base64 p image_base64) s of
        (None, s1) \<Rightarrow> (None, s1)
      | (Some img, s1) \<Rightarrow>
          if size_nd img = 0 then (None, s1)
          else
            (case invoke (DetectorProcess img) (detector_process p img) s1 of
               ((corrected, detected), s2) \<Rightarrow>
                 (case (if \<not> detected
                        then invoke (NormalizeDocument img) (normalize_document p img) s2
                        else (corrected, s2)) of
                    (corrected, s3) \<Rightarrow>
                      (case invoke (LoadZones side) (load_zones p side) s3 of
                         (zones, s4) \<Rightarrow> (Some (corrected, zones), s4)))))"

definition process_front ::
  "'w processor \<Rightarrow> string \<Rightarrow> 'w pstate \<Rightarrow> (py_error + (string, ustring) fmap) \<times> 'w pstate" where
  "process_front p image_base64 s = process_side p image_base64 ''front'' FRONT_FIELDS s"

definition process_back ::
  "'w processor \<Rightarrow> string \<Rightarrow> 'w pstate \<Rightarrow> (py_error + (string, ustring) fmap) \<times> 'w pstate" where
  "process_back p image_base64 s = process_side p image_base64 ''back'' BACK_FIELDS s"

section \<open>Processing both sides\<close>

record combined_result =
  success :: bool
  data :: "(string, ustring) fmap"
  extracted_fields :: int
  total_fields :: int
  extraction_rate :: pynum

text \<open>\<open>sum(1 for v in all_results.values() if v)\<close>: a string is true when it is not empty.\<close>

definition count_nonempty :: "(string, ustring) fmap \<Rightarrow> int" where
  "count_nonempty m = int (fcard (ffilter (\<lambda>k. fmlookup m k \<noteq> Some []) (fmdom m)))"

text \<open>\<open>len(all_results)\<close>.\<close>

definition dict_len :: "(string, ustring) fmap \<Rightarrow> int" where
  "dict_len m = int (fcard (fmdom m))"

text \<open>\<open>IDCardOCRProcessor.process_both\<close>.\<close>

definition process_both ::
  "'w processor \<Rightarrow> string \<Rightarrow> string \<Rightarrow> 'w pstate \<Rightarrow> (py_error + combined_result) \<times> 'w pstate" where
  "process_both p front_base64 back_base64 s =
     (case process_front p front_base64 s of
        (Inl e, s1) \<Rightarrow> (Inl e, s1)
      | (Inr front_results, s1) \<Rightarrow>
          (case process_back p back_base64 s1 of
             (Inl e, s2) \<Rightarrow> (Inl e, s2)
           | (Inr back_results, s2) \<Rightarrow>
               (let all_results = (fmempty ++\<^sub>f front_results) ++\<^sub>f back_results;
                    successful = count_nonempty all_results;
                    total = dict_len all_results
                in if 0 < total
                   then (case int_truediv successful total of
                           Inl e \<Rightarrow> (Inl e, s2)
                         | Inr rate \<Rightarrow>
                             (Inr \<lparr>success = True, data = all_results,
                                   extracted_fields = successful, total_fields = total,
                                   extraction_rate = PyFloat rate\<rparr>, s2))
                   else (Inr \<lparr>success = True, data = all_results,
                               extracted_fields = successful, total_fields = total,
                               extraction_rate = PyInt 0\<rparr>, s2))))"

text \<open>
  The test of line 107 of \<open>_process_side\<close>: the decoder returned \<open>None\<close> or an
  image without elements.
\<close>

definition decode_failed :: "'w processor \<Rightarrow> string \<Rightarrow> 'w pstate \<Rightarrow> bool" where
  "decode_failed p b s \<longleftrightarrow>
     (case fst (decode_base64 p b (world s)) of None \<Rightarrow> True | Some img \<Rightarrow> size_nd img = 0)"

section \<open>Contracts of the collaborators\<close>

text \<open>
  What the theorems below assume of the collaborators, whose code is outside the two
  modules modelled here. Each contract is stated for every state of the outside world.
\<close>

text \<open>
  A coordinate as the layouts are meant to hold it: an \<open>int\<close>, or a finite \<open>float\<close>
  between 0 and 1.
\<close>

definition unit_coordinate :: "pynum \<Rightarrow> bool" where
  "unit_coordinate v \<longleftrightarrow>
     (case v of PyInt a \<Rightarrow> True | PyFloat (Finite a) \<Rightarrow> 0 \<le> a \<and> a \<le> 1 | _ \<Rightarrow> False)"

text \<open>Every zone of every layout has a pixel rectangle: no coordinate is a NaN or overflows.\<close>

definition zones_computable :: "'w processor \<Rightarrow> bool" where
  "zones_computable p \<longleftrightarrow>
     (\<forall>side w field zone. fst (load_zones p side w) field = Some zone \<longrightarrow>
        (\<exists>r. zone_rect (target_width p) (target_height p) zone = Inr r))"

text \<open>\<open>ResultValidator.validate_all\<close> returns a dictionary with the keys it was given.\<close>

definition validator_keeps_keys :: "'w processor \<Rightarrow> bool" where
  "validator_keeps_keys p \<longleftrightarrow> (\<forall>m w. fmdom (fst (validate_all p m w)) = fmdom m)"

text \<open>\<open>ResultValidator.validate_all\<close> leaves an empty value empty.\<close>

definition validator_keeps_empty :: "'w processor \<Rightarrow> bool" where
  "validator_keeps_empty p \<longleftrightarrow>
     (\<forall>m w k. fmlookup m k = Some [] \<longrightarrow> fmlookup (fst (validate_all p m w)) k = Some [])"

text \<open>\<open>ResultValidator.clean_text\<close> maps the empty string to the empty string.\<close>

definition cleaner_keeps_empty :: "'w processor \<Rightarrow> bool" where
  "cleaner_keeps_empty p \<longleftrightarrow> (\<forall>w. fst (clean_text p [] w) = [])"


text \<open>Every collaborator is a fixed function: its result does not depend on the state.\<close>

definition fixed_functions :: "'w processor \<Rightarrow> bool" where
  "fixed_functions p \<longleftrightarrow>
     (\<forall>a w w'. fst (decode_base64 p a w) = fst (decode_base64 p a w')) \<and>
     (\<forall>a w w'. fst (detector_process p a w) = fst (detector_process p a w')) \<and>
     (\<forall>a w w'. fst (normalize_document p a w) = fst (normalize_document p a w')) \<and>
     (\<forall>a w w'. fst (load_zones p a w) = fst (load_zones p a w')) \<and>
     (\<forall>a x y b h w w'. fst (crop_zone p a x y b h w) = fst (crop_zone p a x y b h w')) \<and>
     (\<forall>a w w'. fst (image_to_string p a w) = fst (image_to_string p a w')) \<and>
     (\<forall>a w w'. fst (clean_text p a w) = fst (clean_text p a w')) \<and>
     (\<forall>a w w'. fst (validate_all p a w) = fst (validate_all p a w'))"

text \<open>
  Facts of the Unicode tables behind \<open>str.isspace\<close> and \<open>str.upper\<close>: the space
  character (32) is whitespace and its own uppercase; the uppercase of a character that
  is not whitespace is not empty and holds no whitespace; uppercase characters are their
  own uppercase.
\<close>

definition unicode_tables :: "'w processor \<Rightarrow> bool" where
  "unicode_tables p \<longleftrightarrow>
     isspace p 32 \<and> toupper p 32 = [32] \<and>
     (\<forall>c. \<not> isspace p c \<longrightarrow>
        toupper p c \<noteq> [] \<and> (\<forall>d \<in> set (toupper p c). \<not> isspace p d)) \<and>
     (\<forall>c. \<forall>d \<in> set (toupper p c). toupper p d = [d])"

section \<open>Normal form of recognised text\<close>

fun no_adjacent_spaces :: "ustring \<Rightarrow> bool" where
  "no_adjacent_spaces (c # d # cs) \<longleftrightarrow> \<not> (c = 32 \<and> d = 32) \<and> no_adjacent_spaces (d # cs)"
| "no_adjacent_spaces _ \<longleftrightarrow> True"

text \<open>
  The only whitespace of \<open>t\<close> is the space character, never twice in a row, and \<open>t\<close>
  neither starts nor ends with whitespace.
\<close>

definition whitespace_collapsed :: "(nat \<Rightarrow> bool) \<Rightarrow> ustring \<Rightarrow> bool" where
  "whitespace_collapsed sp t \<longleftrightarrow>
     (\<forall>c \<in> set t. sp c \<longrightarrow> c = 32) \<and> no_adjacent_spaces t \<and>
     (t \<noteq> [] \<longrightarrow> \<not> sp (hd t) \<and> \<not> sp (last t))"

text \<open>\<open>t\<close> is uppercase: \<open>t.upper() == t\<close>.\<close>

definition is_upper :: "(nat \<Rightarrow> nat list) \<Rightarrow> ustring \<Rightarrow> bool" where
  "is_upper up t \<longleftrightarrow> py_upper up t = t"

section \<open>A sample processor\<close>

text \<open>
  A processor with simple collaborators, to instantiate the theorems. The outside world
  is a counter of the calls made. The decoder fails on the empty input. The layout of
  the front has one zone, the layout of the back one zone of width zero. A crop is a
  blank grey image of the size asked for. The engine reads \<open>" Jan  Kowalski\n"\<close> in
  every crop.
\<close>

definition blank :: "int \<Rightarrow> int \<Rightarrow> ndarray" where
  "blank h b = \<lparr>shape = [nat h, nat b], elems = replicate (nat h * nat b) 0\<rparr>"

definition sample_image :: ndarray where
  "sample_image = \<lparr>shape = [2, 2, 3], elems = [1, 2, 3, 4, 5, 6, 7, 8, 9, 10, 11, 12]\<rparr>"

definition sample_text :: ustring where
  "sample_text = [32, 74, 97, 110, 32, 32, 75, 111, 119, 97, 108, 115, 107, 105, 10]"

definition empty_zone :: zone where
  "empty_zone = \<lparr>zone_x = PyInt 0, zone_y = PyInt 0, zone_width = PyInt 0, zone_height = PyInt 1\<rparr>"

definition sample_zones :: "string \<Rightarrow> string \<Rightarrow> zone option" where
  "sample_zones side =
     (if side = ''front'' then [''f_nazwisko'' \<mapsto> example_zone] else [''MRZ'' \<mapsto> empty_zone])"

definition ascii_isspace :: "nat \<Rightarrow> bool" where
  "ascii_isspace c \<longleftrightarrow> c = 32 \<or> (9 \<le> c \<and> c \<le> 13) \<or> (28 \<le> c \<and> c \<le> 31)"

definition ascii_toupper :: "nat \<Rightarrow> nat list" where
  "ascii_toupper c = (if 97 \<le> c \<and> c \<le> 122 then [c - 32] else [c])"

definition sample_processor :: "nat processor" where
  "sample_processor =
     \<lparr>decode_base64 = (\<lambda>b w. (if b = [] then None else Some sample_image, Suc w)),
      detector_process = (\<lambda>a w. ((a, True), Suc w)),
      normalize_document = (\<lambda>a w. (a, Suc w)),
      load_zones = (\<lambda>side w. (sample_zones side, Suc w)),
      crop_zone = (\<lambda>a x y b h w. (blank h b, Suc w)),
      clean_text = (\<lambda>t w. (t, Suc w)),
      validate_all = (\<lambda>m w. (m, Suc w)),
      tesseract_available = True,
      image_to_string = (\<lambda>a w. (Inr sample_text, Suc w)),
      isspace = ascii_isspace,
      toupper = ascii_toupper,
      target_width = 1000,
      target_height = 630\<rparr>"

text \<open>The same processor with an engine that raises on every call.\<close>

definition failing_processor :: "nat processor" where
  "failing_processor =
     sample_processor\<lparr>image_to_string := (\<lambda>a w. (Inl (EngineError ''tesseract''), Suc w))\<rparr>"

definition initial_state :: "nat pstate" where
  "initial_state = \<lparr>world = 0, calls = []\<rparr>"

text \<open>
  A processor whose cropping clamps the rectangle to the bounds of the image, as the
  slice \<open>image[y:y+h, x:x+w]\<close> does: the crop is a blank image with the rows and columns
  of the rectangle that lie inside the image. Its detector returns a canonical frame of
  1000 by 630 pixels, and its layout has one zone inside the frame and one zone that
  starts at the right edge of the frame (\<open>x = 1\<close>).
\<close>

definition clamped_crop :: "ndarray \<Rightarrow> int \<Rightarrow> int \<Rightarrow> int \<Rightarrow> int \<Rightarrow> ndarray" where
  "clamped_crop a x y b h =
     blank (min (y + h) (int (shape a ! 0)) - max y 0) (min (x + b) (int (shape a ! 1)) - max x 0)"

definition edge_zone :: zone where
  "edge_zone =
     \<lparr>zone_x = PyInt 1,
      zone_y = PyFloat (round_double (1 / 10)),
      zone_width = PyFloat (round_double (2 / 10)),
      zone_height = PyFloat (round_double (5 / 100))\<rparr>"

definition clamping_zones :: "string \<Rightarrow> zone option" where
  "clamping_zones = [''b_seria_id'' \<mapsto> example_zone, ''b_numer_id'' \<mapsto> edge_zone]"

definition clamping_processor :: "nat processor" where
  "clamping_processor =
     sample_processor
       \<lparr>detector_process := (\<lambda>a w. ((blank 630 1000, True), Suc w)),
        load_zones := (\<lambda>side w. (clamping_zones, Suc w)),
        crop_zone := (\<lambda>a x y b h w. (clamped_crop a x y b h, Suc w))\<rparr>"

section \<open>Evaluating the float model\<close>

lemma floor_rat_numeral: "\<lfloor>numeral a / numeral b :: rat\<rfloor> = numeral a div numeral b"
  by (metis floor_divide_of_int_eq of_int_numeral)

lemma ceiling_rat_numeral: "\<lceil>numeral a / numeral b :: rat\<rceil> = - (- numeral a div numeral b)"
  unfolding ceiling_def
  by (metis floor_divide_of_int_eq of_int_numeral of_int_minus minus_divide_left)

lemma round_double_eval:
  assumes "0 < q" and "ilog2 q = k" and "max (k - 52) (- 1074) = e"
    and "round_half_even (q / pow2 e) = m" and "of_int m * pow2 e = r" and "r < pow2 1024"
  shows "round_double q = Finite r"
  using assms by (simp add: round_double_def Let_def)

lemmas float_eval =
  ilog2_def pow2_def round_half_even_def Let_def bit_length.simps
  floor_rat_numeral ceiling_rat_numeral

lemma double_tenth: "round_double (1 / 10) = Finite (3602879701896397 / 36028797018963968)"
  by (rule round_double_eval [where k = "- 4" and e = "- 56" and m = 7205759403792794])
    (simp_all add: float_eval)

lemma double_fifth: "round_double (2 / 10) = Finite (3602879701896397 / 18014398509481984)"
  by (rule round_double_eval [where k = "- 3" and e = "- 55" and m = 7205759403792794])
    (simp_all add: float_eval)

lemma double_twentieth: "round_double (5 / 100) = Finite (3602879701896397 / 72057594037927936)"
  by (rule round_double_eval [where k = "- 5" and e = "- 57" and m = 7205759403792794])
    (simp_all add: float_eval)

lemma float_1000: "float_of_int 1000 = Inr (Finite 1000)"
proof -
  have "round_double 1000 = Finite 1000"
    by (rule round_double_eval [where k = 9 and e = "- 43" and m = "1000 * 2 ^ 43"])
      (simp_all add: float_eval)
  then show ?thesis by (simp add: float_of_int_def)
qed

lemma float_630: "float_of_int 630 = Inr (Finite 630)"
proof -
  have "round_double 630 = Finite 630"
    by (rule round_double_eval [where k = 9 and e = "- 43" and m = "630 * 2 ^ 43"])
      (simp_all add: float_eval)
  then show ?thesis by (simp add: float_of_int_def)
qed

lemma product_x: "round_double (3602879701896397 / 36028797018963968 * 1000) = Finite 100"
  by (rule round_double_eval [where k = 6 and e = "- 46" and m = "100 * 2 ^ 46"])
    (simp_all add: float_eval)

lemma product_y: "round_double (3602879701896397 / 36028797018963968 * 630) = Finite 63"
  by (rule round_double_eval [where k = 5 and e = "- 47" and m = "63 * 2 ^ 47"])
    (simp_all add: float_eval)

lemma product_w: "round_double (3602879701896397 / 18014398509481984 * 1000) = Finite 200"
  by (rule round_double_eval [where k = 7 and e = "- 45" and m = "200 * 2 ^ 45"])
    (simp_all add: float_eval)

lemma product_h: "round_double (3602879701896397 / 72057594037927936 * 630) = Finite (63 / 2)"
  by (rule round_double_eval [where k = 4 and e = "- 48" and m = "63 * 2 ^ 47"])
    (simp_all add: float_eval)

lemma num_mul_int_float:
  assumes "float_of_int n = Inr (Finite g)" and "round_double (a * g) = Finite r"
  shows "num_mul_int (PyFloat (Finite a)) n = Inr (PyFloat (Finite r))"
  using assms by (simp add: num_mul_int_def)

lemma example_products:
  "num_mul_int (zone_x example_zone) 1000 = Inr (PyFloat (Finite 100))"
  "num_mul_int (zone_y example_zone) 630 = Inr (PyFloat (Finite 63))"
  "num_mul_int (zone_width example_zone) 1000 = Inr (PyFloat (Finite 200))"
  "num_mul_int (zone_height example_zone) 630 = Inr (PyFloat (Finite (63 / 2)))"
  unfolding example_zone_def zone.simps double_tenth double_fifth double_twentieth
  by (rule num_mul_int_float [OF float_1000 product_x] num_mul_int_float [OF float_630 product_y]
      num_mul_int_float [OF float_1000 product_w] num_mul_int_float [OF float_630 product_h])+

lemma example_zone_rect: "zone_rect 1000 630 example_zone = Inr (100, 63, 200, 31)"
  by (simp add: zone_rect_def scale_def example_products trunc_def floor_rat_numeral)

lemma example_zone_rect_rounded: "zone_rect_rounded 1000 630 example_zone = Inr (100, 63, 200, 32)"
  by (simp add: zone_rect_rounded_def scale_rounded_def example_products round_half_even_def
      floor_rat_numeral Let_def)

section \<open>The exponent of the leading bit\<close>

lemma bit_length_pos: "0 < n \<Longrightarrow> 0 < bit_length n"
  by (subst bit_length.simps) simp

lemma bit_length_bounds: "0 < n \<Longrightarrow> 2 ^ (bit_length n - 1) \<le> n \<and> n < 2 ^ bit_length n"
proof (induction n rule: bit_length.induct)
  case (1 n)
  show ?case
  proof (cases "n div 2 = 0")
    case True
    with 1 have "n = 1" by (simp add: div_eq_0_iff) 
    then show ?thesis
      by (simp add: bit_length.simps)
  next
    case False
    then have half: "0 < n div 2" by simp
    have IH: "2 ^ (bit_length (n div 2) - 1) \<le> n div 2 \<and> n div 2 < 2 ^ bit_length (n div 2)"
      using 1 half by simp
    have len: "bit_length n = Suc (bit_length (n div 2))"
      using 1(2) by (subst bit_length.simps) simp
    obtain k where k: "bit_length (n div 2) = Suc k"
      using bit_length_pos [OF half] by (cases "bit_length (n div 2)") auto
    from IH k have "2 ^ k \<le> n div 2" "n div 2 < 2 * 2 ^ k" by simp_all
    then have "2 * 2 ^ k \<le> n" "n < 2 * (2 * 2 ^ k)" by linarith+
    then show ?thesis
      by (simp add: len k)
  qed
qed

lemma pow2_nat: "pow2 (int k) = 2 ^ k"
  by (simp add: pow2_def)

lemma pow2_neg_nat: "pow2 (- int k) = 1 / 2 ^ k"
  by (auto simp: pow2_def)

lemma of_nat_bounds:
  assumes "2 ^ k \<le> n" and "n < 2 * 2 ^ k"
  shows "(2::rat) ^ k \<le> of_nat n" and "(of_nat n :: rat) + 1 \<le> 2 * 2 ^ k"
proof -
  have "(of_nat (2 ^ k) :: rat) \<le> of_nat n"
    using assms(1) by (simp only: of_nat_le_iff)
  then show "(2::rat) ^ k \<le> of_nat n" by simp
  have "Suc n \<le> 2 * 2 ^ k"
    using assms(2) by simp
  then have "(of_nat (Suc n) :: rat) \<le> of_nat (2 * 2 ^ k)"
    by (simp only: of_nat_le_iff)
  then show "(of_nat n :: rat) + 1 \<le> 2 * 2 ^ k" by simp
qed

lemma ilog2_bounds:
  assumes "0 < q"
  shows "pow2 (ilog2 q) \<le> q \<and> q < pow2 (ilog2 q + 1)"
proof (cases "1 \<le> q")
  case True
  define n where "n = nat \<lfloor>q\<rfloor>"
  have n: "0 < n" "of_nat n \<le> q" "q < of_nat n + 1"
    using True by (simp_all add: n_def le_floor_iff) linarith+
  obtain k where k: "bit_length n = Suc k"
    using bit_length_pos [OF n(1)] by (cases "bit_length n") auto
  have "2 ^ k \<le> n" "n < 2 * 2 ^ k"
    using bit_length_bounds [OF n(1)] k by simp_all
  then have "(2::rat) ^ k \<le> of_nat n" "(of_nat n :: rat) + 1 \<le> 2 * 2 ^ k"
    by (rule of_nat_bounds)+
  then have "2 ^ k \<le> q" "q < 2 * 2 ^ k"
    using n by linarith+
  moreover have "ilog2 q = int k"
    using True k by (simp add: ilog2_def n_def)
  moreover have "pow2 (int k + 1) = 2 * 2 ^ k"
    using pow2_nat [of "Suc k"] by (simp add: add.commute)
  ultimately show ?thesis
    by (simp add: pow2_nat)
next
  case False
  then have inv: "1 < 1 / q"
    using assms by (simp add: less_divide_eq)
  define n where "n = nat (\<lceil>1 / q\<rceil> - 1)"
  have "1 < \<lceil>1 / q\<rceil>"
    using inv by (simp only: less_ceiling_iff of_int_1)
  then have ceil: "2 \<le> \<lceil>1 / q\<rceil>"
    by simp
  define c where "c = \<lceil>1 / q\<rceil>"
  have "2 \<le> c"
    using ceil by (simp only: c_def)
  then have "0 < nat (c - 1)" "int (nat (c - 1)) = c - 1"
    by simp_all
  then have n: "0 < n" "int n = \<lceil>1 / q\<rceil> - 1"
    unfolding n_def c_def by this+
  have upper: "1 / q \<le> of_nat n + 1"
  proof -
    have "1 / q \<le> of_int \<lceil>1 / q\<rceil>" by (rule le_of_int_ceiling)
    also have "\<dots> = of_int (int n) + 1" using n(2) by simp
    finally show ?thesis by simp
  qed
  have lower: "of_nat n < 1 / q"
  proof -
    have "of_int \<lceil>1 / q\<rceil> - 1 < 1 / q" by linarith
    moreover have "(of_nat n :: rat) = of_int (int n)"
      by simp
    then have "(of_nat n :: rat) = of_int \<lceil>1 / q\<rceil> - 1"
      unfolding n(2) by simp
    ultimately show ?thesis by simp
  qed
  obtain k where k: "bit_length n = Suc k"
    using bit_length_pos [OF n(1)] by (cases "bit_length n") auto
  have "2 ^ k \<le> n" "n < 2 * 2 ^ k"
    using bit_length_bounds [OF n(1)] k by simp_all
  then have "(2::rat) ^ k \<le> of_nat n" "(of_nat n :: rat) + 1 \<le> 2 * 2 ^ k"
    by (rule of_nat_bounds)+
  then have "2 ^ k < 1 / q" "1 / q \<le> 2 * 2 ^ k"
    using upper lower by linarith+
  then have "q < 1 / 2 ^ k" "1 / (2 * 2 ^ k) \<le> q"
    using assms by (simp_all add: field_simps)
  moreover have "ilog2 q = - int (Suc k)"
    using False k by (simp add: ilog2_def n_def)
  moreover have "pow2 (- int (Suc k)) = 1 / (2 * 2 ^ k)" "pow2 (- int (Suc k) + 1) = 1 / 2 ^ k"
    using pow2_neg_nat [of "Suc k"] pow2_neg_nat [of k] by simp_all
  ultimately show ?thesis
    by simp
qed

section \<open>Results within the float range\<close>

lemma pow2_powi: "pow2 e = 2 powi e"
  by (simp add: pow2_def power_int_def inverse_eq_divide power_one_over)

lemma pow2_mono: "e \<le> e' \<Longrightarrow> pow2 e \<le> pow2 e'"
  by (simp add: pow2_powi power_int_increasing)

lemma pow2_positive: "0 < pow2 e"
  by (simp add: pow2_def)

lemma round_half_even_bound: "of_int (round_half_even x) \<le> x + 1"
proof -
  define n where "n = \<lfloor>x\<rfloor>"
  have floor: "of_int n \<le> x"
    by (simp add: n_def)
  have "round_half_even x = n \<or> round_half_even x = n + 1"
    by (auto simp: round_half_even_def Let_def n_def)
  then show ?thesis
    using floor by (elim disjE) simp_all
qed

lemma round_half_even_nonnegative: "0 \<le> x \<Longrightarrow> 0 \<le> round_half_even x"
  by (auto simp: round_half_even_def Let_def)

lemma round_double_bounded:
  assumes "\<bar>q\<bar> \<le> b" and "1 \<le> b" and "2 * b < pow2 1024"
  shows "\<exists>r. round_double q = Finite r \<and> \<bar>r\<bar> \<le> 2 * b"
proof (cases "q = 0")
  case True
  then show ?thesis using assms by (simp add: round_double_def)
next
  case False
  define a where "a = \<bar>q\<bar>"
  define e where "e = max (ilog2 a - 52) (- 1074)"
  define m where "m = round_half_even (a / pow2 e)"
  have a: "0 < a" "a \<le> b"
    using False assms(1) by (simp_all add: a_def)
  have small: "pow2 e \<le> b"
  proof (cases "ilog2 a - 52 \<le> - 1074")
    case True
    then have "e = - 1074" by (simp add: e_def)
    then have "pow2 e \<le> 1" by (simp add: pow2_def divide_le_eq)
    then show ?thesis using assms(2) by simp
  next
    case False
    then have "e \<le> ilog2 a" by (simp add: e_def)
    then have "pow2 e \<le> pow2 (ilog2 a)" by (rule pow2_mono)
    also have "\<dots> \<le> a" using ilog2_bounds [OF a(1)] by simp
    finally show ?thesis using a(2) by simp
  qed
  have "of_int m \<le> a / pow2 e + 1"
    unfolding m_def by (rule round_half_even_bound)
  then have "of_int m * pow2 e \<le> (a / pow2 e + 1) * pow2 e"
    using pow2_positive [of e] by (simp add: mult_right_mono)
  moreover have "(a / pow2 e + 1) * pow2 e = a + pow2 e"
    using pow2_positive [of e] by (simp add: field_simps)
  ultimately have upper: "of_int m * pow2 e \<le> a + pow2 e"
    by simp
  have "0 \<le> m"
    unfolding m_def using a(1) pow2_positive [of e] by (intro round_half_even_nonnegative) simp
  then have "0 \<le> of_int m * pow2 e"
    using pow2_positive [of e] by simp
  then have r: "0 \<le> of_int m * pow2 e" "of_int m * pow2 e \<le> 2 * b"
    using a(2) small upper by simp_all
  define R where "R = of_int m * pow2 e"
  have "\<not> pow2 1024 \<le> R"
    using r(2) assms(3) by (simp add: R_def)
  then have "round_double q = Finite (if 0 < q then R else - R)"
    using False unfolding round_double_def Let_def R_def m_def e_def a_def by simp
  moreover have "\<bar>if 0 < q then R else - R\<bar> \<le> 2 * b"
    using r by (simp add: R_def)
  ultimately show ?thesis
    by blast
qed

lemma float_of_int_bounded:
  assumes "\<bar>n\<bar> \<le> 2 ^ 500"
  shows "\<exists>g. float_of_int n = Inr (Finite g) \<and> \<bar>g\<bar> \<le> 2 ^ 501"
proof -
  have "\<bar>of_int n :: rat\<bar> \<le> of_int (2 ^ 500)"
    using assms by (simp only: of_int_abs [symmetric] of_int_le_iff)
  then have "\<bar>of_int n :: rat\<bar> \<le> 2 ^ 500"
    by simp
  moreover have "(1::rat) \<le> 2 ^ 500" "2 * (2::rat) ^ 500 < pow2 1024"
    by (simp_all add: pow2_def)
  ultimately obtain g where "round_double (of_int n) = Finite g" "\<bar>g\<bar> \<le> 2 * 2 ^ 500"
    using round_double_bounded by blast
  then show ?thesis
    by (simp add: float_of_int_def)
qed

lemma scale_unit_coordinate:
  assumes "unit_coordinate v" and "\<bar>n\<bar> \<le> 2 ^ 500"
  shows "\<exists>k. scale v n = Inr k"
proof (cases v)
  case (PyInt a)
  then show ?thesis by (simp add: scale_def num_mul_int_def)
next
  case (PyFloat f)
  with assms(1) obtain a where f: "f = Finite a" and a: "0 \<le> a" "a \<le> 1"
    by (auto simp: unit_coordinate_def split: pyfloat.splits)
  obtain g where g: "float_of_int n = Inr (Finite g)" "\<bar>g\<bar> \<le> 2 ^ 501"
    using float_of_int_bounded [OF assms(2)] by blast
  have "\<bar>a * g\<bar> \<le> 1 * \<bar>g\<bar>"
    unfolding abs_mult using a by (intro mult_right_mono) simp_all
  then have "\<bar>a * g\<bar> \<le> 2 ^ 501"
    using g(2) by simp
  moreover have "(1::rat) \<le> 2 ^ 501" "2 * (2::rat) ^ 501 < pow2 1024"
    by (simp_all add: pow2_def)
  ultimately obtain r where "round_double (a * g) = Finite r"
    using round_double_bounded by blast
  then show ?thesis
    using PyFloat f g(1) by (simp add: scale_def num_mul_int_def)
qed

lemma fractional_zone_computable:
  assumes "unit_coordinate (zone_x z)" "unit_coordinate (zone_y z)"
    "unit_coordinate (zone_width z)" "unit_coordinate (zone_height z)"
    and "\<bar>frame_width\<bar> \<le> 2 ^ 500" "\<bar>frame_height\<bar> \<le> 2 ^ 500"
  shows "\<exists>r. zone_rect frame_width frame_height z = Inr r"
proof -
  obtain x y w h where "scale (zone_x z) frame_width = Inr x"
    "scale (zone_y z) frame_height = Inr y" "scale (zone_width z) frame_width = Inr w"
    "scale (zone_height z) frame_height = Inr h"
    using assms scale_unit_coordinate by meson
  then show ?thesis
    by (simp add: zone_rect_def)
qed

text \<open>
  Layouts whose coordinates are fractions between 0 and 1, on a frame of any realistic
  size, meet the contract \<open>zones_computable\<close>.
\<close>

lemma unit_layout_computable:
  assumes "\<forall>side w field z. fst (load_zones p side w) field = Some z \<longrightarrow>
             unit_coordinate (zone_x z) \<and> unit_coordinate (zone_y z)
             \<and> unit_coordinate (zone_width z) \<and> unit_coordinate (zone_height z)"
    and "\<bar>target_width p\<bar> \<le> 2 ^ 500" and "\<bar>target_height p\<bar> \<le> 2 ^ 500"
  shows "zones_computable p"
  unfolding zones_computable_def
proof (intro allI impI)
  fix side w field z
  assume "fst (load_zones p side w) field = Some z"
  then have "unit_coordinate (zone_x z)" "unit_coordinate (zone_y z)"
    "unit_coordinate (zone_width z)" "unit_coordinate (zone_height z)"
    using assms(1) by blast+
  then show "\<exists>r. zone_rect (target_width p) (target_height p) z = Inr r"
    using assms(2,3) by (rule fractional_zone_computable)
qed

section \<open>C1: the pixel rectangle of a zone\<close>

lemma example_zone_eq:
  "example_zone =
     \<lparr>zone_x = PyFloat (Finite (3602879701896397 / 36028797018963968)),
      zone_y = PyFloat (Finite (3602879701896397 / 36028797018963968)),
      zone_width = PyFloat (Finite (3602879701896397 / 18014398509481984)),
      zone_height = PyFloat (Finite (3602879701896397 / 72057594037927936))\<rparr>"
  unfolding example_zone_def double_tenth double_fifth double_twentieth ..

text \<open>
  C1, as the specification states it, fails: on the frame 1000 x 630 the zone
  \<open>{x: 0.1, y: 0.1, width: 0.2, height: 0.05}\<close> gets the rectangle \<open>(100, 63, 200, 31)\<close>,
  not \<open>(100, 63, 200, 32)\<close>. The product \<open>0.05 * 630\<close> is the float \<open>31.5\<close>, which
  \<open>int\<close> truncates to 31 where rounding gives 32.
\<close>

theorem zone_rect_not_rounded:
  "zone_rect 1000 630 example_zone \<noteq> Inr (100, 63, 200, 32)
   \<and> zone_rect_rounded 1000 630 example_zone = Inr (100, 63, 200, 32)"
  by (simp add: example_zone_rect example_zone_rect_rounded)

text \<open>
  C1, amended: for a zone whose coordinates are finite floats, each pixel coordinate is
  the float product of the fractional coordinate and the frame dimension, truncated
  toward zero: \<open>px = int(x * frameWidth)\<close>, \<open>py = int(y * frameHeight)\<close>,
  \<open>pw = int(width * frameWidth)\<close>, \<open>ph = int(height * frameHeight)\<close>. Here \<open>gw\<close> and
  \<open>gh\<close> are the frame dimensions as floats and \<open>px\<close>, \<open>py\<close>, \<open>pw\<close>, \<open>ph\<close> the
  products, rounded to binary64.
\<close>

theorem zone_rect_truncates:
  assumes "float_of_int frame_width = Inr (Finite gw)"
    and "float_of_int frame_height = Inr (Finite gh)"
    and "round_double (ax * gw) = Finite px"
    and "round_double (ay * gh) = Finite py"
    and "round_double (aw * gw) = Finite pw"
    and "round_double (ah * gh) = Finite ph"
  shows "zone_rect frame_width frame_height
           \<lparr>zone_x = PyFloat (Finite ax), zone_y = PyFloat (Finite ay),
            zone_width = PyFloat (Finite aw), zone_height = PyFloat (Finite ah)\<rparr>
         = Inr (trunc px, trunc py, trunc pw, trunc ph)"
  using assms by (simp add: zone_rect_def scale_def num_mul_int_def)

theorem zone_rect_truncates_witness:
  "float_of_int 1000 = Inr (Finite 1000) \<and> float_of_int 630 = Inr (Finite 630)
   \<and> round_double (3602879701896397 / 36028797018963968 * 1000) = Finite 100
   \<and> round_double (3602879701896397 / 36028797018963968 * 630) = Finite 63
   \<and> round_double (3602879701896397 / 18014398509481984 * 1000) = Finite 200
   \<and> round_double (3602879701896397 / 72057594037927936 * 630) = Finite (63 / 2)
   \<and> zone_rect 1000 630 example_zone = Inr (trunc 100, trunc 63, trunc 200, trunc (63 / 2))
   \<and> (trunc 100, trunc 63, trunc 200, trunc (63 / 2)) = (100, 63, 200, 31)"
proof -
  note rect = zone_rect_truncates [OF float_1000 float_630 product_x product_y product_w product_h]
  have "zone_rect 1000 630 example_zone = Inr (trunc 100, trunc 63, trunc 200, trunc (63 / 2))"
    unfolding example_zone_eq by (rule rect)
  moreover have "(trunc 100, trunc 63, trunc 200, trunc (63 / 2)) = (100, 63, 200, 31)"
    by (simp add: trunc_def floor_rat_numeral)
  ultimately show ?thesis
    using float_1000 float_630 product_x product_y product_w product_h by simp
qed

section \<open>Text normalisation\<close>

lemma split_from_words:
  assumes "\<forall>c \<in> set cur. \<not> sp c"
  shows "\<forall>w \<in> set (split_from sp cur s). w \<noteq> [] \<and> (\<forall>c \<in> set w. \<not> sp c)"
  using assms
proof (induction s arbitrary: cur)
  case Nil
  then show ?case by simp
next
  case (Cons c s)
  show ?case
  proof (cases "sp c")
    case True
    have "\<forall>w \<in> set (split_from sp [] s). w \<noteq> [] \<and> (\<forall>c \<in> set w. \<not> sp c)"
      by (rule Cons.IH) simp
    with True Cons.prems show ?thesis by simp
  next
    case False
    have "\<forall>w \<in> set (split_from sp (cur @ [c]) s). w \<noteq> [] \<and> (\<forall>c \<in> set w. \<not> sp c)"
      by (rule Cons.IH) (use False Cons.prems in simp)
    with False show ?thesis by simp
  qed
qed

lemma py_split_words: "\<forall>w \<in> set (py_split sp s). w \<noteq> [] \<and> (\<forall>c \<in> set w. \<not> sp c)"
  unfolding py_split_def by (rule split_from_words) simp

lemma set_py_join: "set (py_join sep ws) \<subseteq> set sep \<union> (\<Union>w \<in> set ws. set w)"
  by (induction sep ws rule: py_join.induct) auto

lemma py_join_Nil_iff: "\<forall>w \<in> set ws. w \<noteq> [] \<Longrightarrow> py_join sep ws = [] \<longleftrightarrow> ws = []"
  by (induction sep ws rule: py_join.induct) auto

lemma hd_py_join: "\<forall>w \<in> set ws. w \<noteq> [] \<Longrightarrow> ws \<noteq> [] \<Longrightarrow> hd (py_join sep ws) = hd (hd ws)"
  by (induction sep ws rule: py_join.induct) auto

lemma last_py_join:
  "\<forall>w \<in> set ws. w \<noteq> [] \<Longrightarrow> ws \<noteq> [] \<Longrightarrow> last (py_join sep ws) = last (last ws)"
  by (induction sep ws rule: py_join.induct) (auto simp: py_join_Nil_iff)

lemma no_adjacent_spaces_append:
  "32 \<notin> set w \<Longrightarrow> no_adjacent_spaces t \<Longrightarrow> no_adjacent_spaces (w @ t)"
proof (induction w)
  case Nil
  then show ?case by simp
next
  case (Cons c w)
  then show ?case by (cases "w @ t") auto
qed

lemma no_adjacent_spaces_space:
  "t \<noteq> [] \<Longrightarrow> hd t \<noteq> 32 \<Longrightarrow> no_adjacent_spaces t \<Longrightarrow> no_adjacent_spaces (32 # t)"
  by (cases t) auto

lemma no_adjacent_spaces_word: "32 \<notin> set w \<Longrightarrow> no_adjacent_spaces w"
  using no_adjacent_spaces_append [of w "[]"] by simp

lemma no_adjacent_spaces_join:
  assumes "\<forall>w \<in> set ws. w \<noteq> [] \<and> 32 \<notin> set w"
  shows "no_adjacent_spaces (py_join [32] ws)"
  using assms
proof (induction "[32::nat]" ws rule: py_join.induct)
  case 1
  then show ?case by simp
next
  case (2 w)
  then show ?case by (simp add: no_adjacent_spaces_word)
next
  case (3 w v ws)
  have rest: "no_adjacent_spaces (py_join [32] (v # ws))"
    using 3 by simp
  have ne: "py_join [32] (v # ws) \<noteq> []"
    using 3(2) py_join_Nil_iff [of "v # ws" "[32]"] by simp
  have "hd (py_join [32] (v # ws)) = hd v"
    using 3(2) hd_py_join [of "v # ws" "[32]"] by simp
  moreover have "hd v \<noteq> 32"
    using 3(2) by (cases v) auto
  ultimately have "no_adjacent_spaces (32 # py_join [32] (v # ws))"
    using rest ne by (simp add: no_adjacent_spaces_space)
  then show ?case
    using 3(2) no_adjacent_spaces_append [of w "32 # py_join [32] (v # ws)"] by simp
qed

lemma whitespace_collapsed_join:
  assumes words: "\<forall>w \<in> set ws. w \<noteq> [] \<and> (\<forall>c \<in> set w. \<not> sp c)" and space: "sp 32"
  shows "whitespace_collapsed sp (py_join [32] ws)"
proof -
  have no32: "\<forall>w \<in> set ws. w \<noteq> [] \<and> 32 \<notin> set w"
    using words space by auto
  have "\<forall>c \<in> set (py_join [32] ws). sp c \<longrightarrow> c = 32"
    using set_py_join [of "[32]" ws] words by auto
  moreover have "no_adjacent_spaces (py_join [32] ws)"
    using no32 by (rule no_adjacent_spaces_join)
  moreover have "\<not> sp (hd (py_join [32] ws)) \<and> \<not> sp (last (py_join [32] ws))"
    if "py_join [32] ws \<noteq> []"
  proof -
    from that have ne: "ws \<noteq> []" by auto
    then have "hd ws \<in> set ws" "last ws \<in> set ws" by simp_all
    then have "\<not> sp (hd (hd ws))" "\<not> sp (last (last ws))"
      using words by (metis hd_in_set, metis last_in_set)
    then show ?thesis
      using words ne by (simp add: hd_py_join last_py_join)
  qed
  ultimately show ?thesis
    by (simp add: whitespace_collapsed_def)
qed

lemma py_upper_append: "py_upper up (s @ t) = py_upper up s @ py_upper up t"
  by (simp add: py_upper_def)

lemma py_upper_join:
  "up 32 = [32] \<Longrightarrow> py_upper up (py_join [32] ws) = py_join [32] (map (py_upper up) ws)"
  by (induction "[32::nat]" ws rule: py_join.induct) (simp_all add: py_upper_append py_upper_def)

lemma py_upper_fixed: "\<forall>d \<in> set t. up d = [d] \<Longrightarrow> py_upper up t = t"
  by (induction t) (simp_all add: py_upper_def)

lemma py_upper_idem:
  assumes "\<forall>c. \<forall>d \<in> set (up c). up d = [d]"
  shows "py_upper up (py_upper up t) = py_upper up t"
proof (rule py_upper_fixed)
  show "\<forall>d \<in> set (py_upper up t). up d = [d]"
    using assms by (auto simp: py_upper_def)
qed

lemma py_upper_word:
  assumes "\<forall>c. \<not> sp c \<longrightarrow> up c \<noteq> [] \<and> (\<forall>d \<in> set (up c). \<not> sp d)"
    and "w \<noteq> []" and "\<forall>c \<in> set w. \<not> sp c"
  shows "py_upper up w \<noteq> [] \<and> (\<forall>c \<in> set (py_upper up w). \<not> sp c)"
  using assms by (cases w) (auto simp: py_upper_def)

lemma cleaned_text_normal:
  assumes "unicode_tables p"
  shows "whitespace_collapsed (isspace p)
           (py_upper (toupper p) (py_join [32] (py_split (isspace p) t)))
         \<and> is_upper (toupper p) (py_upper (toupper p) (py_join [32] (py_split (isspace p) t)))"
proof -
  let ?sp = "isspace p" and ?up = "toupper p"
  from assms have space: "?sp 32" and up32: "?up 32 = [32]"
    and up: "\<forall>c. \<not> ?sp c \<longrightarrow> ?up c \<noteq> [] \<and> (\<forall>d \<in> set (?up c). \<not> ?sp d)"
    and idem: "\<forall>c. \<forall>d \<in> set (?up c). ?up d = [d]"
    by (simp_all add: unicode_tables_def)
  have "\<forall>w \<in> set (map (py_upper ?up) (py_split ?sp t)). w \<noteq> [] \<and> (\<forall>c \<in> set w. \<not> ?sp c)"
    using py_split_words [of ?sp t] py_upper_word [OF up] by auto
  then have "whitespace_collapsed ?sp (py_join [32] (map (py_upper ?up) (py_split ?sp t)))"
    using space by (rule whitespace_collapsed_join)
  then have "whitespace_collapsed ?sp (py_upper ?up (py_join [32] (py_split ?sp t)))"
    using up32 by (simp add: py_upper_join)
  moreover have "is_upper ?up (py_upper ?up (py_join [32] (py_split ?sp t)))"
    unfolding is_upper_def using idem by (rule py_upper_idem)
  ultimately show ?thesis ..
qed

section \<open>Calls of the collaborators\<close>

lemma invoke_eq:
  "invoke c f s = (fst (f (world s)), \<lparr>world = snd (f (world s)), calls = calls s @ [c]\<rparr>)"
  by (simp add: invoke_def split: prod.splits)

lemma fst_invoke: "fst (invoke c f s) = fst (f (world s))"
  by (simp add: invoke_eq)

lemma calls_invoke: "calls (snd (invoke c f s)) = calls s @ [c]"
  by (simp add: invoke_eq)

section \<open>The recognition service\<close>




lemma roi_normal:
  assumes "unicode_tables p"
  shows "whitespace_collapsed (isspace p) (fst (extract_text_from_roi p a s))
         \<and> is_upper (toupper p) (fst (extract_text_from_roi p a s))"
proof -
  have nil: "whitespace_collapsed (isspace p) [] \<and> is_upper (toupper p) []"
    by (simp add: whitespace_collapsed_def is_upper_def py_upper_def)
  show ?thesis
    using nil cleaned_text_normal [OF assms]
    by (simp add: extract_text_from_roi_def invoke_eq Let_def split: sum.splits)
qed

section \<open>One field\<close>


lemma process_field_empty_crop:
  assumes "zones field = Some z"
    and "zone_rect (target_width p) (target_height p) z = Inr (x, y, w, h)"
    and "size_nd (fst (crop_zone p c x y w h (world s))) = 0"
  shows "process_field p c zones field s
         = (Inr [], snd (invoke (CropZone c x y w h) (crop_zone p c x y w h) s))"
  using assms by (simp add: process_field_def invoke_eq)

lemma process_field_returns:
  assumes "\<forall>z. zones field = Some z \<longrightarrow> (\<exists>r. zone_rect (target_width p) (target_height p) z = Inr r)"
  shows "\<exists>t s'. process_field p c zones field s = (Inr t, s')"
  using assms by (auto simp: process_field_def split: option.splits sum.splits prod.splits)


section \<open>The loop over the fields\<close>

lemma extract_fields_returns:
  assumes "\<forall>field z. zones field = Some z \<longrightarrow>
             (\<exists>r. zone_rect (target_width p) (target_height p) z = Inr r)"
  shows "\<exists>res s'. extract_fields p c zones field_names results s = (Inr res, s')
           \<and> fmdom res = fmdom results |\<union>| fset_of_list field_names"
proof (induction field_names arbitrary: results s)
  case Nil
  then show ?case by simp
next
  case (Cons field field_names)
  obtain t s1 where t: "process_field p c zones field s = (Inr t, s1)"
    using process_field_returns [of zones field p c s] assms by blast
  obtain res s' where "extract_fields p c zones field_names (fmupd field t results) s1 = (Inr res, s')"
    and "fmdom res = fmdom (fmupd field t results) |\<union>| fset_of_list field_names"
    using Cons.IH by blast
  then show ?case using t by auto
qed


section \<open>One side\<close>

lemma empty_result_dom: "fmdom (empty_result field_names) = fset_of_list field_names"
  by (induction field_names) (simp_all add: empty_result_def)

lemma empty_result_lookup:
  "field \<in> set field_names \<Longrightarrow> fmlookup (empty_result field_names) field = Some []"
  by (induction field_names) (auto simp: empty_result_def)

lemma empty_result_values: "fmlookup (empty_result field_names) k = Some v \<Longrightarrow> v = []"
  by (induction field_names) (auto simp: empty_result_def split: if_splits)

lemma process_side_decode_failed:
  assumes "decode_failed p b s"
  shows "process_side p b side field_names s
         = (Inr (empty_result field_names), snd (invoke (DecodeBase64 b) (decode_base64 p b) s))"
  using assms
  by (simp add: process_side_def decode_failed_def invoke_eq split: option.splits)

lemma process_side_decoded:
  assumes "\<not> decode_failed p b s"
  shows "\<exists>corrected w s4.
           process_side p b side field_names s
           = (case extract_fields p corrected (fst (load_zones p side w)) field_names fmempty s4 of
                (Inl e, s5) \<Rightarrow> (Inl e, s5)
              | (Inr results, s5) \<Rightarrow>
                  (Inr (fst (validate_all p results (world s5))),
                   snd (invoke (ValidateAll results) (validate_all p results) s5)))"
proof -
  from assms obtain img where img: "fst (decode_base64 p b (world s)) = Some img"
    and size: "size_nd img \<noteq> 0"
    by (auto simp: decode_failed_def split: option.splits)
  obtain s1 where decode: "invoke (DecodeBase64 b) (decode_base64 p b) s = (Some img, s1)"
    using img by (simp add: invoke_eq)
  obtain corrected0 detected s2
    where detect: "invoke (DetectorProcess img) (detector_process p img) s1
                   = ((corrected0, detected), s2)"
    by (metis surj_pair)
  obtain corrected s3
    where normalize: "(if \<not> detected
                       then invoke (NormalizeDocument img) (normalize_document p img) s2
                       else (corrected0, s2)) = (corrected, s3)"
    by (metis surj_pair)
  obtain zones s4 where load: "invoke (LoadZones side) (load_zones p side) s3 = (zones, s4)"
    by (metis surj_pair)
  have zones: "zones = fst (load_zones p side (world s3))"
    using load by (simp add: invoke_eq)
  have validate: "(case invoke (ValidateAll results) (validate_all p results) s5 of
                     (results', s6) \<Rightarrow> (Inr results', s6))
                  = (Inr (fst (validate_all p results (world s5))),
                     snd (invoke (ValidateAll results) (validate_all p results) s5))"
    for results s5
    by (simp add: case_prod_beta fst_invoke)
  have "process_side p b side field_names s
        = (case extract_fields p corrected zones field_names fmempty s4 of
             (Inl e, s5) \<Rightarrow> (Inl e, s5)
           | (Inr results, s5) \<Rightarrow>
               (Inr (fst (validate_all p results (world s5))),
                snd (invoke (ValidateAll results) (validate_all p results) s5)))"
    unfolding process_side_def decode prod.case option.case detect normalize load validate
    using size by simp
  then show ?thesis
    unfolding zones by blast
qed

lemma roi_calls:
  "calls (snd (extract_text_from_roi p a s))
   = calls s @ (if tesseract_available p then [ImageToString (to_rgb a)] else [])"
  by (simp add: extract_text_from_roi_def invoke_eq Let_def split: sum.splits)

lemma process_field_clean_calls:
  assumes "CleanText t \<in> set (calls (snd (process_field p c zones field s)))"
  shows "CleanText t \<in> set (calls s) \<or> (\<exists>a s1. t = fst (extract_text_from_roi p a s1))"
  using assms
  by (auto simp: process_field_def case_prod_beta calls_invoke roi_calls
      split: option.splits sum.splits if_splits)


lemma process_side_keys:
  assumes "zones_computable p" and "validator_keeps_keys p"
  shows "\<exists>r s'. process_side p b side field_names s = (Inr r, s')
           \<and> fmdom r = fset_of_list field_names"
proof (cases "decode_failed p b s")
  case True
  then show ?thesis
    by (simp add: process_side_decode_failed empty_result_dom)
next
  case False
  then obtain c w s4 where side:
    "process_side p b side field_names s
     = (case extract_fields p c (fst (load_zones p side w)) field_names fmempty s4 of
          (Inl e, s5) \<Rightarrow> (Inl e, s5)
        | (Inr results, s5) \<Rightarrow>
            (Inr (fst (validate_all p results (world s5))),
             snd (invoke (ValidateAll results) (validate_all p results) s5)))"
    using process_side_decoded by blast
  let ?zones = "fst (load_zones p side w)"
  have "\<forall>f z. ?zones f = Some z \<longrightarrow>
          (\<exists>r. zone_rect (target_width p) (target_height p) z = Inr r)"
    using assms(1) unfolding zones_computable_def by blast
  then obtain res s5
    where loop: "extract_fields p c ?zones field_names fmempty s4 = (Inr res, s5)"
      and dom: "fmdom res = fset_of_list field_names"
    using extract_fields_returns [of ?zones p c field_names fmempty s4] by auto
  have "fmdom (fst (validate_all p res (world s5))) = fset_of_list field_names"
    using assms(2) dom by (simp add: validator_keeps_keys_def)
  then show ?thesis
    using side loop by simp
qed

section \<open>C2: the keys of a side result\<close>

text \<open>
  C2: whatever the input image, and whether it can be decoded or not, \<open>_process_side\<close>
  returns a dictionary whose key set is exactly the field list it was given, every field
  being mapped to a string; so \<open>process_front\<close> and \<open>process_back\<close> return
  dictionaries over \<open>FRONT_FIELDS\<close> and \<open>BACK_FIELDS\<close>. The layouts are
  assumed to hold finite coordinates and \<open>validate_all\<close> to keep the keys.
\<close>

theorem side_result_keys:
  assumes "zones_computable p" and "validator_keeps_keys p"
  shows "(\<exists>r s'. process_side p image_base64 side field_names s = (Inr r, s')
            \<and> fmdom r = fset_of_list field_names
            \<and> (\<forall>field \<in> set field_names. \<exists>text. fmlookup r field = Some text))
         \<and> (\<exists>r s'. process_front p image_base64 s = (Inr r, s')
            \<and> fmdom r = fset_of_list FRONT_FIELDS)
         \<and> (\<exists>r s'. process_back p image_base64 s = (Inr r, s')
            \<and> fmdom r = fset_of_list BACK_FIELDS)"
proof -
  note side = process_side_keys [OF assms, of image_base64 _ _ s]
  have "\<exists>text. fmlookup r field = Some text"
    if "fmdom r = fset_of_list field_names" and "field \<in> set field_names" for r field field_names
    using that by (metis fmdom_notI fset_of_list_elem option.exhaust)
  then show ?thesis
    using side [of side field_names] side [of "''front''" FRONT_FIELDS]
      side [of "''back''" BACK_FIELDS]
    unfolding process_front_def process_back_def by metis
qed

section \<open>The sample processor meets the contracts\<close>

lemma empty_zone_rect: "zone_rect 1000 630 empty_zone = Inr (0, 0, 0, 630)"
  by (simp add: zone_rect_def scale_def num_mul_int_def empty_zone_def)

lemma sample_fields [simp]:
  "load_zones sample_processor = (\<lambda>side w. (sample_zones side, Suc w))"
  "validate_all sample_processor = (\<lambda>m w. (m, Suc w))"
  "clean_text sample_processor = (\<lambda>t w. (t, Suc w))"
  "crop_zone sample_processor = (\<lambda>a x y b h w. (blank h b, Suc w))"
  "decode_base64 sample_processor = (\<lambda>b w. (if b = [] then None else Some sample_image, Suc w))"
  "image_to_string sample_processor = (\<lambda>a w. (Inr sample_text, Suc w))"
  "tesseract_available sample_processor = True"
  "isspace sample_processor = ascii_isspace"
  "toupper sample_processor = ascii_toupper"
  "target_width sample_processor = 1000"
  "target_height sample_processor = 630"
  by (simp_all add: sample_processor_def)

lemma sample_zones_computable: "zones_computable sample_processor"
  by (auto simp: zones_computable_def sample_zones_def example_zone_rect empty_zone_rect
      split: if_splits)

lemma sample_validator_keeps_keys: "validator_keeps_keys sample_processor"
  by (simp add: validator_keeps_keys_def)


lemma sample_cleaner_keeps_empty: "cleaner_keeps_empty sample_processor"
  by (simp add: cleaner_keeps_empty_def)

lemma sample_unicode_tables: "unicode_tables sample_processor"
  by (auto simp: unicode_tables_def ascii_isspace_def ascii_toupper_def split: if_splits)

theorem side_result_keys_witness:
  "zones_computable sample_processor \<and> validator_keeps_keys sample_processor
   \<and> (\<exists>r s'. process_side sample_processor ''scan'' ''front'' FRONT_FIELDS initial_state = (Inr r, s')
        \<and> fmdom r = fset_of_list FRONT_FIELDS
        \<and> (\<forall>field \<in> set FRONT_FIELDS. \<exists>text. fmlookup r field = Some text))
   \<and> (\<exists>r s'. process_front sample_processor ''scan'' initial_state = (Inr r, s')
        \<and> fmdom r = fset_of_list FRONT_FIELDS)
   \<and> (\<exists>r s'. process_back sample_processor ''scan'' initial_state = (Inr r, s')
        \<and> fmdom r = fset_of_list BACK_FIELDS)"
  using side_result_keys [OF sample_zones_computable sample_validator_keeps_keys,
      of "''scan''" "''front''" FRONT_FIELDS initial_state]
    sample_zones_computable sample_validator_keeps_keys
  by simp

section \<open>C4: decode failure\<close>

text \<open>
  C4: if the decoder returns \<open>None\<close> or an empty image, \<open>_process_side\<close> returns the
  dictionary that maps every field of the list it was given to the empty string, and the
  decoder is the only collaborator it has called: neither the document detector, the
  normaliser, the zone reader, the cropping, the engine nor the validator is invoked.
\<close>

theorem decode_failure_empty_result:
  assumes "decode_failed p image_base64 s"
  shows "fst (process_side p image_base64 side field_names s) = Inr (empty_result field_names)
         \<and> calls (snd (process_side p image_base64 side field_names s))
             = calls s @ [DecodeBase64 image_base64]
         \<and> fmdom (empty_result field_names) = fset_of_list field_names
         \<and> (\<forall>field \<in> set field_names. fmlookup (empty_result field_names) field = Some [])"
  using assms
  by (simp add: process_side_decode_failed calls_invoke empty_result_dom empty_result_lookup)

theorem decode_failure_empty_result_witness:
  "decode_failed sample_processor [] initial_state
   \<and> fst (process_side sample_processor [] ''front'' FRONT_FIELDS initial_state)
       = Inr (empty_result FRONT_FIELDS)
   \<and> calls (snd (process_side sample_processor [] ''front'' FRONT_FIELDS initial_state))
       = [DecodeBase64 []]
   \<and> fmlookup (empty_result FRONT_FIELDS) ''f_plec'' = Some []"
proof -
  have failed: "decode_failed sample_processor [] initial_state"
    by (simp add: decode_failed_def)
  show ?thesis
    using failed decode_failure_empty_result [OF failed, of "''front''" FRONT_FIELDS]
    by (simp add: initial_state_def FRONT_FIELDS_def)
qed

section \<open>C5: a field without a zone\<close>



section \<open>The steps before the loop\<close>

lemma process_side_setup_eq:
  "process_side p image_base64 side field_names s
   = (case process_side_setup p image_base64 side s of
        (None, s1) \<Rightarrow> (Inr (empty_result field_names), s1)
      | (Some (corrected, zones), s4) \<Rightarrow>
          (case extract_fields p corrected zones field_names fmempty s4 of
             (Inl e, s5) \<Rightarrow> (Inl e, s5)
           | (Inr results, s5) \<Rightarrow>
               (case invoke (ValidateAll results) (validate_all p results) s5 of
                  (results, s6) \<Rightarrow> (Inr results, s6))))"
  by (simp add: process_side_def process_side_setup_def split: prod.splits option.splits)

lemma process_side_setup_zones:
  assumes "process_side_setup p image_base64 side s = (Some (corrected, zones), s4)"
  shows "\<exists>w. zones = fst (load_zones p side w)"
  using assms
  by (auto simp: process_side_setup_def invoke_eq split: prod.splits option.splits if_splits)

lemma extract_fields_append:
  "extract_fields p c zones (xs @ ys) results s
   = (case extract_fields p c zones xs results s of
        (Inl e, s') \<Rightarrow> (Inl e, s')
      | (Inr res, s') \<Rightarrow> extract_fields p c zones ys res s')"
  by (induction xs arbitrary: results s) (auto split: prod.splits sum.splits)

lemma extract_fields_keeps:
  assumes "extract_fields p c zones field_names results s = (Inr res, s')"
    and "field \<notin> set field_names"
  shows "fmlookup res field = fmlookup results field"
  using assms
  by (induction field_names arbitrary: results s) (auto split: prod.splits sum.splits)

section \<open>The clamping processor\<close>

lemma shape_blank: "shape (blank h b) = [nat h, nat b]"
  by (simp add: blank_def)

lemma size_blank: "size_nd (blank h b) = nat h * nat b"
  by (simp add: size_nd_def shape_blank)

lemma clamping_fields [simp]:
  "load_zones clamping_processor = (\<lambda>side w. (clamping_zones, Suc w))"
  "validate_all clamping_processor = (\<lambda>m w. (m, Suc w))"
  "clean_text clamping_processor = (\<lambda>t w. (t, Suc w))"
  "crop_zone clamping_processor = (\<lambda>a x y b h w. (clamped_crop a x y b h, Suc w))"
  "decode_base64 clamping_processor
   = (\<lambda>b w. (if b = [] then None else Some sample_image, Suc w))"
  "detector_process clamping_processor = (\<lambda>a w. ((blank 630 1000, True), Suc w))"
  "image_to_string clamping_processor = (\<lambda>a w. (Inr sample_text, Suc w))"
  "tesseract_available clamping_processor = True"
  "isspace clamping_processor = ascii_isspace"
  "toupper clamping_processor = ascii_toupper"
  "target_width clamping_processor = 1000"
  "target_height clamping_processor = 630"
  by (simp_all add: clamping_processor_def sample_processor_def)

lemma edge_zone_rect: "zone_rect 1000 630 edge_zone = Inr (1000, 63, 200, 31)"
proof -
  have same: "zone_y edge_zone = zone_y example_zone"
    "zone_width edge_zone = zone_width example_zone"
    "zone_height edge_zone = zone_height example_zone"
    by (simp_all add: edge_zone_def example_zone_def)
  have "scale (zone_x edge_zone) 1000 = Inr 1000"
    by (simp add: edge_zone_def scale_def num_mul_int_def)
  moreover have "scale (zone_y edge_zone) 630 = Inr 63"
    "scale (zone_width edge_zone) 1000 = Inr 200"
    "scale (zone_height edge_zone) 630 = Inr 31"
    unfolding same by (simp_all add: scale_def example_products trunc_def floor_rat_numeral)
  ultimately show ?thesis
    by (simp add: zone_rect_def)
qed

lemma clamping_zones_computable: "zones_computable clamping_processor"
  by (auto simp: zones_computable_def clamping_zones_def example_zone_rect edge_zone_rect
      split: if_splits)

lemma clamping_validator_keeps_empty: "validator_keeps_empty clamping_processor"
  by (simp add: validator_keeps_empty_def)

lemma clamping_setup:
  "process_side_setup clamping_processor ''back scan'' ''back'' initial_state
   = (Some (blank 630 1000, clamping_zones),
      \<lparr>world = 3,
       calls = [DecodeBase64 ''back scan'', DetectorProcess sample_image, LoadZones ''back'']\<rparr>)"
  by (simp add: process_side_setup_def invoke_eq initial_state_def sample_image_def size_nd_def)

lemma clamping_roi:
  "extract_text_from_roi clamping_processor a s
   = ([74, 65, 78, 32, 75, 79, 87, 65, 76, 83, 75, 73],
      \<lparr>world = Suc (world s), calls = calls s @ [ImageToString (to_rgb a)]\<rparr>)"
  by (simp add: extract_text_from_roi_def invoke_eq py_strip_def py_split_def py_upper_def
      ascii_isspace_def ascii_toupper_def sample_text_def Let_def)

lemma clamped_crop_inside: "clamped_crop (blank 630 1000) 100 63 200 31 = blank 31 200"
  by (simp add: clamped_crop_def shape_blank)

lemma clamped_crop_edge: "clamped_crop (blank 630 1000) 1000 63 200 31 = blank 31 0"
  by (simp add: clamped_crop_def shape_blank)

lemma clamped_crop_wide: "clamped_crop (blank 630 2000) 1000 63 200 31 = blank 31 200"
  by (simp add: clamped_crop_def shape_blank)

lemma clamping_first_field:
  "extract_fields clamping_processor (blank 630 1000) clamping_zones [''b_seria_id''] fmempty
     \<lparr>world = 3,
      calls = [DecodeBase64 ''back scan'', DetectorProcess sample_image, LoadZones ''back'']\<rparr>
   = (Inr (fmupd ''b_seria_id'' [74, 65, 78, 32, 75, 79, 87, 65, 76, 83, 75, 73] fmempty),
      \<lparr>world = 6,
       calls = [DecodeBase64 ''back scan'', DetectorProcess sample_image, LoadZones ''back'',
                CropZone (blank 630 1000) 100 63 200 31, ImageToString (blank 31 200),
                CleanText [74, 65, 78, 32, 75, 79, 87, 65, 76, 83, 75, 73]]\<rparr>)"
  by (simp add: process_field_def clamping_zones_def example_zone_rect invoke_eq
      clamped_crop_inside size_blank clamping_roi to_rgb_def shape_blank)

section \<open>C6: a crop of zero area\<close>

text \<open>
  C6: take a run of \<open>_process_side\<close> that reaches the loop with the image \<open>corrected\<close>
  and the layout \<open>zones\<close>, and in which the loop, having read the fields \<open>earlier\<close>,
  reaches \<open>field\<close> in the state \<open>s0\<close>. If the layout has a zone for \<open>field\<close>, with
  pixel rectangle \<open>(x, y, w, h)\<close>, and the crop that \<open>crop_zone\<close> returns for this image
  and rectangle in this state has size 0 (whether the rectangle is empty or lies outside
  the image), then the body of the loop yields the empty string, raises nothing, and
  calls \<open>crop_zone\<close> and nothing else: the recognition engine is not invoked. If moreover
  the layouts hold finite coordinates and \<open>validate_all\<close> leaves empty values empty, the
  side result is returned and maps \<open>field\<close> to the empty string (\<open>field\<close> is not
  processed again later in the list).
\<close>

theorem empty_crop_empty:
  assumes "process_side_setup p image_base64 side s = (Some (corrected, zones), s4)"
    and "field_names = earlier @ field # later" and "field \<notin> set later"
    and "extract_fields p corrected zones earlier fmempty s4 = (Inr results, s0)"
    and "zones field = Some z"
    and "zone_rect (target_width p) (target_height p) z = Inr (x, y, w, h)"
    and "size_nd (fst (crop_zone p corrected x y w h (world s0))) = 0"
  shows "fst (process_field p corrected zones field s0) = Inr []
         \<and> calls (snd (process_field p corrected zones field s0))
             = calls s0 @ [CropZone corrected x y w h]
         \<and> (zones_computable p \<longrightarrow> validator_keeps_empty p \<longrightarrow>
              (\<exists>r s'. process_side p image_base64 side field_names s = (Inr r, s')
                 \<and> fmlookup r field = Some []))"
proof (intro conjI impI)
  let ?s1 = "snd (invoke (CropZone corrected x y w h) (crop_zone p corrected x y w h) s0)"
  have body: "process_field p corrected zones field s0 = (Inr [], ?s1)"
    using assms(5-7) by (rule process_field_empty_crop)
  show "fst (process_field p corrected zones field s0) = Inr []"
    by (simp add: body)
  show "calls (snd (process_field p corrected zones field s0))
        = calls s0 @ [CropZone corrected x y w h]"
    by (simp add: body calls_invoke)
  assume computable: "zones_computable p" and keeps: "validator_keeps_empty p"
  obtain wd where layout: "zones = fst (load_zones p side wd)"
    using process_side_setup_zones [OF assms(1)] by blast
  have rects: "\<forall>g zn. zones g = Some zn \<longrightarrow>
                 (\<exists>r. zone_rect (target_width p) (target_height p) zn = Inr r)"
    using computable layout unfolding zones_computable_def by blast
  obtain res s5
    where rest: "extract_fields p corrected zones later (fmupd field [] results) ?s1 = (Inr res, s5)"
    using extract_fields_returns [OF rects, of corrected later "fmupd field [] results" ?s1]
    by blast
  have "fmlookup res field = fmlookup (fmupd field [] results) field"
    using rest assms(3) by (rule extract_fields_keeps)
  then have empty: "fmlookup res field = Some []"
    by simp
  have loop: "extract_fields p corrected zones field_names fmempty s4 = (Inr res, s5)"
    by (simp add: assms(2,4) extract_fields_append body rest)
  have "process_side p image_base64 side field_names s
        = (Inr (fst (validate_all p res (world s5))),
           snd (invoke (ValidateAll res) (validate_all p res) s5))"
    by (simp add: process_side_setup_eq assms(1) loop case_prod_beta fst_invoke)
  moreover have "fmlookup (fst (validate_all p res (world s5))) field = Some []"
    using keeps empty unfolding validator_keeps_empty_def by blast
  ultimately show "\<exists>r s'. process_side p image_base64 side field_names s = (Inr r, s')
                     \<and> fmlookup r field = Some []"
    by blast
qed

theorem empty_crop_empty_witness:
  "process_side_setup clamping_processor ''back scan'' ''back'' initial_state
   = (Some (blank 630 1000, clamping_zones),
      \<lparr>world = 3,
       calls = [DecodeBase64 ''back scan'', DetectorProcess sample_image, LoadZones ''back'']\<rparr>)
   \<and> BACK_FIELDS
       = [''b_seria_id''] @ ''b_numer_id''
         # [''b_numer_ident'', ''b_data_wydania'', ''b_kto_wydal'', ''b_imiona_rodzicow'',
            ''b_nazwisko_rodowe'', ''b_miejsce_urodzenia'', ''MRZ'']
   \<and> ''b_numer_id''
       \<notin> set [''b_numer_ident'', ''b_data_wydania'', ''b_kto_wydal'', ''b_imiona_rodzicow'',
               ''b_nazwisko_rodowe'', ''b_miejsce_urodzenia'', ''MRZ'']
   \<and> extract_fields clamping_processor (blank 630 1000) clamping_zones [''b_seria_id''] fmempty
        \<lparr>world = 3,
         calls = [DecodeBase64 ''back scan'', DetectorProcess sample_image, LoadZones ''back'']\<rparr>
       = (Inr (fmupd ''b_seria_id'' [74, 65, 78, 32, 75, 79, 87, 65, 76, 83, 75, 73] fmempty),
          \<lparr>world = 6,
           calls = [DecodeBase64 ''back scan'', DetectorProcess sample_image, LoadZones ''back'',
                    CropZone (blank 630 1000) 100 63 200 31, ImageToString (blank 31 200),
                    CleanText [74, 65, 78, 32, 75, 79, 87, 65, 76, 83, 75, 73]]\<rparr>)
   \<and> clamping_zones ''b_numer_id'' = Some edge_zone
   \<and> zone_rect (target_width clamping_processor) (target_height clamping_processor) edge_zone
       = Inr (1000, 63, 200, 31)
   \<and> crop_zone clamping_processor (blank 630 1000) 1000 63 200 31 6 = (blank 31 0, 7)
   \<and> size_nd (fst (crop_zone clamping_processor (blank 630 1000) 1000 63 200 31 6)) = 0
   \<and> size_nd (fst (crop_zone clamping_processor (blank 630 2000) 1000 63 200 31 6)) = 6200
   \<and> zones_computable clamping_processor \<and> validator_keeps_empty clamping_processor
   \<and> fst (process_field clamping_processor (blank 630 1000) clamping_zones ''b_numer_id''
        \<lparr>world = 6,
         calls = [DecodeBase64 ''back scan'', DetectorProcess sample_image, LoadZones ''back'',
                  CropZone (blank 630 1000) 100 63 200 31, ImageToString (blank 31 200),
                  CleanText [74, 65, 78, 32, 75, 79, 87, 65, 76, 83, 75, 73]]\<rparr>) = Inr []
   \<and> calls (snd (process_field clamping_processor (blank 630 1000) clamping_zones ''b_numer_id''
        \<lparr>world = 6,
         calls = [DecodeBase64 ''back scan'', DetectorProcess sample_image, LoadZones ''back'',
                  CropZone (blank 630 1000) 100 63 200 31, ImageToString (blank 31 200),
                  CleanText [74, 65, 78, 32, 75, 79, 87, 65, 76, 83, 75, 73]]\<rparr>))
       = [DecodeBase64 ''back scan'', DetectorProcess sample_image, LoadZones ''back'',
          CropZone (blank 630 1000) 100 63 200 31, ImageToString (blank 31 200),
          CleanText [74, 65, 78, 32, 75, 79, 87, 65, 76, 83, 75, 73],
          CropZone (blank 630 1000) 1000 63 200 31]
   \<and> (\<exists>r s'. process_side clamping_processor ''back scan'' ''back'' BACK_FIELDS initial_state
                = (Inr r, s')
          \<and> fmlookup r ''b_numer_id'' = Some []
          \<and> fmlookup r ''b_seria_id'' = Some [74, 65, 78, 32, 75, 79, 87, 65, 76, 83, 75, 73])"
proof -
  let ?s4 = "\<lparr>world = 3 :: nat,
       calls = [DecodeBase64 ''back scan'', DetectorProcess sample_image, LoadZones ''back'']\<rparr>"
  let ?name = "[74, 65, 78, 32, 75, 79, 87, 65, 76, 83, 75, 73] :: ustring"
  let ?s0 = "\<lparr>world = 6 :: nat,
       calls = [DecodeBase64 ''back scan'', DetectorProcess sample_image, LoadZones ''back'',
                CropZone (blank 630 1000) 100 63 200 31, ImageToString (blank 31 200),
                CleanText ?name]\<rparr>"
  let ?later = "[''b_numer_ident'', ''b_data_wydania'', ''b_kto_wydal'', ''b_imiona_rodzicow'',
            ''b_nazwisko_rodowe'', ''b_miejsce_urodzenia'', ''MRZ'']"
  have fields: "BACK_FIELDS = [''b_seria_id''] @ ''b_numer_id'' # ?later"
    by (simp add: BACK_FIELDS_def)
  have fresh: "''b_numer_id'' \<notin> set ?later"
    by simp
  have zone: "clamping_zones ''b_numer_id'' = Some edge_zone"
    by (simp add: clamping_zones_def)
  have rect: "zone_rect (target_width clamping_processor) (target_height clamping_processor)
                edge_zone = Inr (1000, 63, 200, 31)"
    by (simp add: edge_zone_rect)
  have crop: "crop_zone clamping_processor (blank 630 1000) 1000 63 200 31 6 = (blank 31 0, 7)"
    by (simp add: clamped_crop_edge)
  have empty: "size_nd (fst (crop_zone clamping_processor (blank 630 1000) 1000 63 200 31
                 (world ?s0))) = 0"
    by (simp add: clamped_crop_edge size_blank)
  have wide: "size_nd (fst (crop_zone clamping_processor (blank 630 2000) 1000 63 200 31 6)) = 6200"
    by (simp add: clamped_crop_wide size_blank)
  note run = empty_crop_empty [OF clamping_setup fields fresh clamping_first_field zone rect empty]
  from run have "fst (process_field clamping_processor (blank 630 1000) clamping_zones
                   ''b_numer_id'' ?s0) = Inr []"
    by blast
  moreover from run
  have "calls (snd (process_field clamping_processor (blank 630 1000) clamping_zones
          ''b_numer_id'' ?s0))
        = calls ?s0 @ [CropZone (blank 630 1000) 1000 63 200 31]"
    by blast
  moreover from run clamping_zones_computable clamping_validator_keeps_empty
  obtain r s' where side: "process_side clamping_processor ''back scan'' ''back'' BACK_FIELDS
                      initial_state = (Inr r, s')"
    and "fmlookup r ''b_numer_id'' = Some []"
    by blast
  moreover have "fmlookup r ''b_seria_id'' = Some ?name"
    using side
    by (auto simp: process_side_setup_eq clamping_setup BACK_FIELDS_def process_field_def
        clamping_zones_def example_zone_rect edge_zone_rect invoke_eq clamped_crop_inside
        clamped_crop_edge size_blank clamping_roi to_rgb_def shape_blank
        split: prod.splits sum.splits)
  ultimately show ?thesis
    using clamping_setup fields fresh clamping_first_field zone rect crop empty wide
      clamping_zones_computable clamping_validator_keeps_empty
    by simp
qed

lemma failing_fields [simp]:
  "load_zones failing_processor = (\<lambda>side w. (sample_zones side, Suc w))"
  "validate_all failing_processor = (\<lambda>m w. (m, Suc w))"
  "clean_text failing_processor = (\<lambda>t w. (t, Suc w))"
  "image_to_string failing_processor = (\<lambda>a w. (Inl (EngineError ''tesseract''), Suc w))"
  "tesseract_available failing_processor = True"
  "target_width failing_processor = 1000"
  "target_height failing_processor = 630"
  by (simp_all add: failing_processor_def sample_processor_def)


section \<open>C8: the engine is unavailable or raises\<close>



lemma sample_roi:
  "extract_text_from_roi sample_processor a s
   = ([74, 65, 78, 32, 75, 79, 87, 65, 76, 83, 75, 73],
      \<lparr>world = Suc (world s), calls = calls s @ [ImageToString (to_rgb a)]\<rparr>)"
  by (simp add: extract_text_from_roi_def invoke_eq py_strip_def py_split_def py_upper_def
      ascii_isspace_def ascii_toupper_def sample_text_def Let_def)

lemma sample_field_calls:
  "calls (snd (process_field sample_processor sample_image (sample_zones ''front'')
      ''f_nazwisko'' initial_state))
   = [CropZone sample_image 100 63 200 31, ImageToString (blank 31 200),
      CleanText [74, 65, 78, 32, 75, 79, 87, 65, 76, 83, 75, 73]]"
proof -
  have zone: "sample_zones ''front'' ''f_nazwisko'' = Some example_zone"
    by (simp add: sample_zones_def)
  have rgb: "to_rgb (blank 31 200) = blank 31 200"
    by (simp add: to_rgb_def blank_def)
  have size: "size_nd (blank 31 200) \<noteq> 0"
    by (simp add: size_nd_def blank_def)
  show ?thesis
    using size
    by (simp add: process_field_def zone example_zone_rect invoke_eq sample_roi rgb
        initial_state_def)
qed

section \<open>C10: the text returned by the recognition service\<close>

text \<open>
  C10: every string returned by \<open>extract_text_from_roi\<close> is uppercase, its only
  whitespace is single space characters between words, and it neither starts nor ends
  with whitespace (the empty string is such a string). This is the work of the service
  itself: every text that \<open>_process_side\<close> hands to \<open>clean_text\<close> for a field is
  already in this form. The Unicode tables are assumed to have the properties listed in
  \<open>unicode_tables\<close>.
\<close>

theorem roi_text_normalised:
  assumes "unicode_tables p"
  shows "whitespace_collapsed (isspace p) (fst (extract_text_from_roi p a s))
         \<and> is_upper (toupper p) (fst (extract_text_from_roi p a s))
         \<and> (\<forall>c zones field s0 t.
               CleanText t \<in> set (calls (snd (process_field p c zones field s0))) \<longrightarrow>
               CleanText t \<in> set (calls s0)
               \<or> whitespace_collapsed (isspace p) t \<and> is_upper (toupper p) t)"
  using roi_normal [OF assms] process_field_clean_calls [of _ p] by blast

theorem roi_text_normalised_witness:
  "unicode_tables sample_processor
   \<and> fst (extract_text_from_roi sample_processor sample_image initial_state)
       = [74, 65, 78, 32, 75, 79, 87, 65, 76, 83, 75, 73]
   \<and> whitespace_collapsed ascii_isspace [74, 65, 78, 32, 75, 79, 87, 65, 76, 83, 75, 73]
   \<and> is_upper ascii_toupper [74, 65, 78, 32, 75, 79, 87, 65, 76, 83, 75, 73]
   \<and> calls (snd (process_field sample_processor sample_image (sample_zones ''front'')
        ''f_nazwisko'' initial_state))
      = [CropZone sample_image 100 63 200 31, ImageToString (blank 31 200),
         CleanText [74, 65, 78, 32, 75, 79, 87, 65, 76, 83, 75, 73]]"
proof -
  have recognised: "fst (extract_text_from_roi sample_processor sample_image initial_state)
              = [74, 65, 78, 32, 75, 79, 87, 65, 76, 83, 75, 73]"
    by (simp add: sample_roi)
  show ?thesis
    using roi_text_normalised [OF sample_unicode_tables, of sample_image initial_state]
      sample_unicode_tables sample_field_calls
    unfolding recognised by simp
qed

section \<open>True division of the counts\<close>

lemma round_double_unit:
  assumes "0 \<le> q" and "q \<le> 1"
  shows "\<exists>r. round_double q = Finite r"
proof -
  have "\<bar>q\<bar> \<le> 1"
    using assms by simp
  moreover have "2 * (1::rat) < pow2 1024"
    by (simp add: pow2_def)
  ultimately show ?thesis
    using round_double_bounded [of q 1] by auto
qed

lemma int_truediv_unit:
  assumes "0 \<le> a" and "a \<le> b" and "0 < b"
  shows "\<exists>q. int_truediv a b = Inr (Finite q) \<and> round_double (of_int a / of_int b) = Finite q"
proof -
  have "0 \<le> (of_int a / of_int b :: rat)" "(of_int a / of_int b :: rat) \<le> 1"
    using assms by (simp_all add: divide_le_eq)
  then obtain q where "round_double (of_int a / of_int b) = Finite q"
    using round_double_unit by blast
  then show ?thesis
    using assms by (simp add: int_truediv_def)
qed

section \<open>Counting\<close>

lemma count_nonempty_le: "count_nonempty m \<le> dict_len m"
proof -
  have "ffilter (\<lambda>k. fmlookup m k \<noteq> Some []) (fmdom m) |\<subseteq>| fmdom m"
    by auto
  then show ?thesis
    unfolding count_nonempty_def dict_len_def by (simp add: fcard_mono)
qed

lemma count_nonempty_nonneg: "0 \<le> count_nonempty m"
  by (simp add: count_nonempty_def)

lemma count_nonempty_zero:
  assumes "\<forall>k v. fmlookup m k = Some v \<longrightarrow> v = []"
  shows "count_nonempty m = 0"
proof -
  have "ffilter (\<lambda>k. fmlookup m k \<noteq> Some []) (fmdom m) = {||}"
    using assms by (auto simp: fmlookup_dom_iff)
  then show ?thesis
    by (simp add: count_nonempty_def)
qed

lemma fcard_fset_of_list: "distinct xs \<Longrightarrow> fcard (fset_of_list xs) = length xs"
  by (simp add: fcard.rep_eq fset_of_list.rep_eq distinct_card)

lemma all_fields_distinct: "distinct (FRONT_FIELDS @ BACK_FIELDS)"
  by (simp add: FRONT_FIELDS_def BACK_FIELDS_def)

lemma dict_len_all_fields:
  assumes "fmdom front_results = fset_of_list FRONT_FIELDS"
    and "fmdom back_results = fset_of_list BACK_FIELDS"
  shows "dict_len ((fmempty ++\<^sub>f front_results) ++\<^sub>f back_results) = 17"
proof -
  have "fmdom ((fmempty ++\<^sub>f front_results) ++\<^sub>f back_results)
        = fset_of_list (FRONT_FIELDS @ BACK_FIELDS)"
    using assms by simp
  then have "dict_len ((fmempty ++\<^sub>f front_results) ++\<^sub>f back_results)
             = int (length (FRONT_FIELDS @ BACK_FIELDS))"
    unfolding dict_len_def using all_fields_distinct by (simp only: fcard_fset_of_list)
  then show ?thesis
    by (simp add: FRONT_FIELDS_def BACK_FIELDS_def)
qed

section \<open>Both sides\<close>

lemma process_side_returns:
  assumes "zones_computable p"
  shows "\<exists>r s'. process_side p b side field_names s = (Inr r, s')"
proof (cases "decode_failed p b s")
  case True
  then show ?thesis by (simp add: process_side_decode_failed)
next
  case False
  then obtain c w s4 where side:
    "process_side p b side field_names s
     = (case extract_fields p c (fst (load_zones p side w)) field_names fmempty s4 of
          (Inl e, s5) \<Rightarrow> (Inl e, s5)
        | (Inr results, s5) \<Rightarrow>
            (Inr (fst (validate_all p results (world s5))),
             snd (invoke (ValidateAll results) (validate_all p results) s5)))"
    using process_side_decoded by blast
  let ?zones = "fst (load_zones p side w)"
  have "\<forall>f z. ?zones f = Some z \<longrightarrow> (\<exists>r. zone_rect (target_width p) (target_height p) z = Inr r)"
    using assms unfolding zones_computable_def by blast
  then obtain res s5 where "extract_fields p c ?zones field_names fmempty s4 = (Inr res, s5)"
    using extract_fields_returns [of ?zones p c field_names fmempty s4] by auto
  then show ?thesis
    using side by simp
qed

lemma process_both_result:
  assumes "process_both p f b s = (Inr r, s')"
  shows "success r \<and> extracted_fields r = count_nonempty (data r)
         \<and> total_fields r = dict_len (data r)
         \<and> (if 0 < total_fields r
            then \<exists>rate. int_truediv (extracted_fields r) (total_fields r) = Inr rate
                   \<and> extraction_rate r = PyFloat rate
            else extraction_rate r = PyInt 0)"
  using assms
  by (auto simp: process_both_def Let_def split: prod.splits sum.splits if_splits)

lemma process_both_returns:
  assumes front_run: "process_front p f s = (Inr front_results, s1)"
    and back_run: "process_back p b s1 = (Inr back_results, s2)"
  shows "\<exists>r. process_both p f b s = (Inr r, s2)
           \<and> data r = (fmempty ++\<^sub>f front_results) ++\<^sub>f back_results"
proof -
  let ?all = "(fmempty ++\<^sub>f front_results) ++\<^sub>f back_results"
  show ?thesis
  proof (cases "0 < dict_len ?all")
    case True
    then obtain q where "int_truediv (count_nonempty ?all) (dict_len ?all) = Inr (Finite q)"
      using int_truediv_unit [OF count_nonempty_nonneg count_nonempty_le] by blast
    then show ?thesis
      using True front_run back_run by (simp add: process_both_def Let_def)
  next
    case False
    then show ?thesis
      using front_run back_run by (simp add: process_both_def Let_def)
  qed
qed

section \<open>The counts as cardinalities\<close>

lemma count_nonempty_card:
  "count_nonempty m = int (card {k. \<exists>v. fmlookup m k = Some v \<and> v \<noteq> []})"
proof -
  have "fset (ffilter (\<lambda>k. fmlookup m k \<noteq> Some []) (fmdom m))
        = {k. \<exists>v. fmlookup m k = Some v \<and> v \<noteq> []}"
    by (auto simp: fmlookup_dom_iff)
  then show ?thesis
    by (simp add: count_nonempty_def fcard.rep_eq)
qed

lemma dict_len_card: "dict_len m = int (card {k. \<exists>v. fmlookup m k = Some v})"
proof -
  have "fset (fmdom m) = {k. \<exists>v. fmlookup m k = Some v}"
    by (auto simp: fmlookup_dom_iff)
  then show ?thesis
    by (simp add: dict_len_def fcard.rep_eq)
qed

lemma int_truediv_value:
  "int_truediv a b = Inr rate \<Longrightarrow> rate = round_double (of_int a / of_int b)"
  by (simp add: int_truediv_def split: if_splits pyfloat.splits)

lemma process_both_rate:
  assumes "process_both p f b s = (Inr r, s')"
  shows "if 0 < total_fields r
         then extraction_rate r
              = PyFloat (round_double (of_int (extracted_fields r) / of_int (total_fields r)))
         else extraction_rate r = PyInt 0"
proof (cases "0 < total_fields r")
  case True
  then obtain rate where "int_truediv (extracted_fields r) (total_fields r) = Inr rate"
    and "extraction_rate r = PyFloat rate"
    using process_both_result [OF assms] by auto
  then show ?thesis
    using True int_truediv_value by auto
next
  case False
  then show ?thesis
    using process_both_result [OF assms] by auto
qed

section \<open>A run of the sample processor\<close>

text \<open>
  The sample processor reads \<open>"JAN KOWALSKI"\<close> in the one zone of the front and
  nothing on the back: one field of seventeen, and the rate is the float \<open>1 / 17\<close>.
\<close>

lemma sample_detector:
  "detector_process sample_processor = (\<lambda>a w. ((a, True), Suc w))"
  by (simp add: sample_processor_def)

lemma sample_front_run:
  "fst (process_front sample_processor ''front scan'' s)
   = Inr (fmupd ''f_nazwisko'' [74, 65, 78, 32, 75, 79, 87, 65, 76, 83, 75, 73] (empty_result FRONT_FIELDS))"
proof -
  have "fst (process_front sample_processor ''front scan'' s)
        = Inr (fmupd ''f_numer_kodu'' [] (fmupd ''f_data_waznosci'' [] (fmupd ''f_numer_ID'' []
            (fmupd ''f_plec'' [] (fmupd ''f_data_urodzenia'' [] (fmupd ''f_obywatelstwo'' []
            (fmupd ''f_imiona'' [] (fmupd ''f_nazwisko'' [74, 65, 78, 32, 75, 79, 87, 65, 76, 83, 75, 73] fmempty))))))))"
    by (simp add: process_front_def process_side_def invoke_eq sample_image_def size_nd_def
        FRONT_FIELDS_def process_field_def sample_zones_def example_zone_rect blank_def
        sample_roi sample_detector)
  also have "fmupd ''f_numer_kodu'' [] (fmupd ''f_data_waznosci'' [] (fmupd ''f_numer_ID'' []
            (fmupd ''f_plec'' [] (fmupd ''f_data_urodzenia'' [] (fmupd ''f_obywatelstwo'' []
            (fmupd ''f_imiona'' [] (fmupd ''f_nazwisko'' [74, 65, 78, 32, 75, 79, 87, 65, 76, 83, 75, 73] fmempty)))))))
        = fmupd ''f_nazwisko'' [74, 65, 78, 32, 75, 79, 87, 65, 76, 83, 75, 73] (empty_result FRONT_FIELDS)"
    by (rule fmap_ext) (auto simp: empty_result_def FRONT_FIELDS_def)
  finally show ?thesis .
qed

lemma sample_back_run:
  "fst (process_back sample_processor ''back scan'' s) = Inr (empty_result BACK_FIELDS)"
proof -
  have "fst (process_back sample_processor ''back scan'' s)
        = Inr (fmupd ''MRZ'' [] (fmupd ''b_miejsce_urodzenia'' [] (fmupd ''b_nazwisko_rodowe'' []
            (fmupd ''b_imiona_rodzicow'' [] (fmupd ''b_kto_wydal'' [] (fmupd ''b_data_wydania'' []
            (fmupd ''b_numer_ident'' [] (fmupd ''b_numer_id'' []
            (fmupd ''b_seria_id'' [] fmempty)))))))))"
    by (simp add: process_back_def process_side_def invoke_eq sample_image_def size_nd_def
        BACK_FIELDS_def process_field_def sample_zones_def empty_zone_rect blank_def
        sample_detector)
  also have "fmupd ''MRZ'' [] (fmupd ''b_miejsce_urodzenia'' [] (fmupd ''b_nazwisko_rodowe'' []
            (fmupd ''b_imiona_rodzicow'' [] (fmupd ''b_kto_wydal'' [] (fmupd ''b_data_wydania'' []
            (fmupd ''b_numer_ident'' [] (fmupd ''b_numer_id'' []
            (fmupd ''b_seria_id'' [] fmempty))))))))
        = (empty_result BACK_FIELDS :: (string, ustring) fmap)"
    by (rule fmap_ext) (auto simp: empty_result_def BACK_FIELDS_def)
  finally show ?thesis .
qed

lemma sample_nonempty_keys:
  "{k. \<exists>v. fmlookup (fmupd ''f_nazwisko'' [74, 65, 78, 32, 75, 79, 87, 65, 76, 83, 75, 73]
                         (empty_result FRONT_FIELDS)
                       ++\<^sub>f empty_result BACK_FIELDS) k = Some v \<and> v \<noteq> []}
   = {''f_nazwisko''}"
proof -
  have absent: "fmlookup (empty_result BACK_FIELDS) ''f_nazwisko'' = (None :: ustring option)"
    by (simp add: empty_result_def BACK_FIELDS_def)
  have "''f_nazwisko'' |\<notin>| fmdom (empty_result BACK_FIELDS :: (string, ustring) fmap)"
    using absent by (simp add: fmdom_notI)
  then show ?thesis
    by (auto dest: empty_result_values split: if_splits)
qed

lemma double_seventeenth:
  "round_double (1 / 17) = Finite (4238682002231055 / 72057594037927936)"
  by (rule round_double_eval [where k = "- 5" and e = "- 57" and m = 8477364004462110])
    (simp_all add: float_eval)

section \<open>C3: the counts of the combined result\<close>

text \<open>
  C3: in every combined result that \<open>process_both\<close> returns, \<open>extracted_fields\<close> is
  the number of keys of \<open>data\<close> whose value is not the empty string, \<open>total_fields\<close>
  is the number of keys of \<open>data\<close>, and \<open>extraction_rate\<close> is the quotient
  \<open>extracted_fields / total_fields\<close> (the float nearest to it) when
  \<open>total_fields > 0\<close> and the integer 0 otherwise. When the layouts hold finite
  coordinates and \<open>validate_all\<close> keeps the keys, \<open>process_both\<close> returns such a
  result, the keys of \<open>data\<close> are the fields of \<open>FRONT_FIELDS\<close> and \<open>BACK_FIELDS\<close>,
  and \<open>total_fields\<close> is \<open>|FRONT_FIELDS| + |BACK_FIELDS| = 8 + 9 = 17\<close>.
\<close>

theorem combined_result_counts:
  "(\<forall>r s'. process_both p front_base64 back_base64 s = (Inr r, s') \<longrightarrow>
      extracted_fields r = int (card {k. \<exists>v. fmlookup (data r) k = Some v \<and> v \<noteq> []})
      \<and> total_fields r = int (card {k. \<exists>v. fmlookup (data r) k = Some v})
      \<and> (if 0 < total_fields r
         then extraction_rate r
              = PyFloat (round_double (of_int (extracted_fields r) / of_int (total_fields r)))
         else extraction_rate r = PyInt 0))
   \<and> (zones_computable p \<longrightarrow> validator_keeps_keys p \<longrightarrow>
        (\<exists>r s'. process_both p front_base64 back_base64 s = (Inr r, s')
           \<and> {k. \<exists>v. fmlookup (data r) k = Some v} = set FRONT_FIELDS \<union> set BACK_FIELDS
           \<and> total_fields r = int (length FRONT_FIELDS) + int (length BACK_FIELDS)
           \<and> total_fields r = 17
           \<and> extracted_fields r = int (card {k. \<exists>v. fmlookup (data r) k = Some v \<and> v \<noteq> []})
           \<and> extraction_rate r
               = PyFloat (round_double (of_int (extracted_fields r) / 17))))"
proof (intro conjI allI impI)
  fix r s'
  assume run: "process_both p front_base64 back_base64 s = (Inr r, s')"
  note result = process_both_result [OF run]
  show "extracted_fields r = int (card {k. \<exists>v. fmlookup (data r) k = Some v \<and> v \<noteq> []})"
    using result by (simp add: count_nonempty_card)
  show "total_fields r = int (card {k. \<exists>v. fmlookup (data r) k = Some v})"
    using result by (simp add: dict_len_card)
  show "if 0 < total_fields r
        then extraction_rate r
             = PyFloat (round_double (of_int (extracted_fields r) / of_int (total_fields r)))
        else extraction_rate r = PyInt 0"
    using run by (rule process_both_rate)
next
  assume zones: "zones_computable p" and keys: "validator_keeps_keys p"
  obtain front_results s1 where front_run: "process_front p front_base64 s = (Inr front_results, s1)"
    and front_dom: "fmdom front_results = fset_of_list FRONT_FIELDS"
    using process_side_keys [OF zones keys, of front_base64 "''front''" FRONT_FIELDS s]
    unfolding process_front_def by blast
  obtain back_results s2 where back_run: "process_back p back_base64 s1 = (Inr back_results, s2)"
    and back_dom: "fmdom back_results = fset_of_list BACK_FIELDS"
    using process_side_keys [OF zones keys, of back_base64 "''back''" BACK_FIELDS s1]
    unfolding process_back_def by blast
  obtain r where r: "process_both p front_base64 back_base64 s = (Inr r, s2)"
    and data: "data r = (fmempty ++\<^sub>f front_results) ++\<^sub>f back_results"
    using process_both_returns [OF front_run back_run] by blast
  note result = process_both_result [OF r]
  have total: "total_fields r = 17"
    using result data dict_len_all_fields [OF front_dom back_dom] by simp
  have "fmdom (data r) = fset_of_list FRONT_FIELDS |\<union>| fset_of_list BACK_FIELDS"
    using data front_dom back_dom by simp
  then have "fset (fmdom (data r)) = set FRONT_FIELDS \<union> set BACK_FIELDS"
    by (simp add: fset_of_list.rep_eq)
  moreover have "fset (fmdom (data r)) = {k. \<exists>v. fmlookup (data r) k = Some v}"
    by (auto simp: fmlookup_dom_iff)
  ultimately have key_set: "{k. \<exists>v. fmlookup (data r) k = Some v}
                            = set FRONT_FIELDS \<union> set BACK_FIELDS"
    by simp
  have extracted: "extracted_fields r
                   = int (card {k. \<exists>v. fmlookup (data r) k = Some v \<and> v \<noteq> []})"
    using result by (simp add: count_nonempty_card)
  have "extraction_rate r = PyFloat (round_double (of_int (extracted_fields r) / 17))"
    using process_both_rate [OF r] total by simp
  then show "\<exists>r s'. process_both p front_base64 back_base64 s = (Inr r, s')
           \<and> {k. \<exists>v. fmlookup (data r) k = Some v} = set FRONT_FIELDS \<union> set BACK_FIELDS
           \<and> total_fields r = int (length FRONT_FIELDS) + int (length BACK_FIELDS)
           \<and> total_fields r = 17
           \<and> extracted_fields r = int (card {k. \<exists>v. fmlookup (data r) k = Some v \<and> v \<noteq> []})
           \<and> extraction_rate r
               = PyFloat (round_double (of_int (extracted_fields r) / 17))"
    using r total key_set extracted
    by (intro exI [of _ r] exI [of _ s2]) (simp add: FRONT_FIELDS_def BACK_FIELDS_def)
qed

theorem combined_result_counts_witness:
  "zones_computable sample_processor \<and> validator_keeps_keys sample_processor
   \<and> (\<exists>r s'. process_both sample_processor ''front scan'' ''back scan'' initial_state = (Inr r, s')
        \<and> data r = fmupd ''f_nazwisko'' [74, 65, 78, 32, 75, 79, 87, 65, 76, 83, 75, 73]
                     (empty_result FRONT_FIELDS) ++\<^sub>f empty_result BACK_FIELDS
        \<and> {k. \<exists>v. fmlookup (data r) k = Some v \<and> v \<noteq> []} = {''f_nazwisko''}
        \<and> extracted_fields r = 1
        \<and> total_fields r = 17
        \<and> extraction_rate r = PyFloat (Finite (4238682002231055 / 72057594037927936)))"
proof -
  obtain s1 where front_run: "process_front sample_processor ''front scan'' initial_state
      = (Inr (fmupd ''f_nazwisko'' [74, 65, 78, 32, 75, 79, 87, 65, 76, 83, 75, 73] (empty_result FRONT_FIELDS)), s1)"
    using sample_front_run [of initial_state] by (metis prod.collapse)
  obtain s2 where back_run: "process_back sample_processor ''back scan'' s1
      = (Inr (empty_result BACK_FIELDS), s2)"
    using sample_back_run [of s1] by (metis prod.collapse)
  obtain r0 where r0: "process_both sample_processor ''front scan'' ''back scan'' initial_state
      = (Inr r0, s2)"
    and data: "data r0 = (fmempty ++\<^sub>f fmupd ''f_nazwisko'' [74, 65, 78, 32, 75, 79, 87, 65, 76, 83, 75, 73] (empty_result FRONT_FIELDS))
                 ++\<^sub>f empty_result BACK_FIELDS"
    using process_both_returns [OF front_run back_run] by blast
  from combined_result_counts [of sample_processor "''front scan''" "''back scan''" initial_state]
    sample_zones_computable sample_validator_keeps_keys
  obtain r s' where r: "process_both sample_processor ''front scan'' ''back scan'' initial_state
      = (Inr r, s')"
    and total: "total_fields r = 17"
    and extracted: "extracted_fields r
        = int (card {k. \<exists>v. fmlookup (data r) k = Some v \<and> v \<noteq> []})"
    and rate: "extraction_rate r = PyFloat (round_double (of_int (extracted_fields r) / 17))"
    by blast
  have same: "r = r0"
    using r r0 by simp
  have data_r: "data r = fmupd ''f_nazwisko'' [74, 65, 78, 32, 75, 79, 87, 65, 76, 83, 75, 73] (empty_result FRONT_FIELDS)
                  ++\<^sub>f empty_result BACK_FIELDS"
    using data same by simp
  have keys: "{k. \<exists>v. fmlookup (data r) k = Some v \<and> v \<noteq> []} = {''f_nazwisko''}"
    unfolding data_r by (rule sample_nonempty_keys)
  have one: "extracted_fields r = 1"
    using extracted keys by simp
  have "extraction_rate r = PyFloat (Finite (4238682002231055 / 72057594037927936))"
    using rate one double_seventeenth by simp
  then show ?thesis
    using r data_r keys one total sample_zones_computable sample_validator_keeps_keys
    by auto
qed

section \<open>C7: the success flag\<close>

text \<open>
  C7: every combined result returned by \<open>process_both\<close> has \<open>success = True\<close>,
  whatever the extraction rate; and \<open>process_both\<close> does return a result whenever the
  layouts hold finite coordinates.
\<close>

theorem success_always_true:
  "(\<forall>r s'. process_both p front_base64 back_base64 s = (Inr r, s') \<longrightarrow> success r)
   \<and> (zones_computable p \<longrightarrow>
        (\<exists>r s'. process_both p front_base64 back_base64 s = (Inr r, s') \<and> success r))"
proof (intro conjI allI impI)
  fix r s'
  assume "process_both p front_base64 back_base64 s = (Inr r, s')"
  then show "success r"
    using process_both_result by blast
next
  assume zones: "zones_computable p"
  obtain front_results s1 where front_run: "process_front p front_base64 s = (Inr front_results, s1)"
    using process_side_returns [OF zones] unfolding process_front_def by blast
  obtain back_results s2 where back_run: "process_back p back_base64 s1 = (Inr back_results, s2)"
    using process_side_returns [OF zones] unfolding process_back_def by blast
  obtain r where r: "process_both p front_base64 back_base64 s = (Inr r, s2)"
    using process_both_returns [OF front_run back_run] by blast
  then show "\<exists>r s'. process_both p front_base64 back_base64 s = (Inr r, s') \<and> success r"
    using process_both_result by blast
qed

lemma sample_decode_failed: "decode_failed sample_processor [] s"
  by (simp add: decode_failed_def)

lemma all_empty_result:
  "fst (process_both sample_processor [] [] initial_state)
   = Inr \<lparr>success = True,
          data = (fmempty ++\<^sub>f empty_result FRONT_FIELDS) ++\<^sub>f empty_result BACK_FIELDS,
          extracted_fields = 0, total_fields = 17, extraction_rate = PyFloat (Finite 0)\<rparr>"
proof -
  let ?all = "(fmempty ++\<^sub>f empty_result FRONT_FIELDS) ++\<^sub>f empty_result BACK_FIELDS
              :: (string, ustring) fmap"
  have count: "count_nonempty ?all = 0"
    by (rule count_nonempty_zero) (auto dest: empty_result_values split: if_splits)
  have len: "dict_len ?all = 17"
    by (rule dict_len_all_fields) (rule empty_result_dom)+
  have rate: "int_truediv 0 17 = Inr (Finite 0)"
    by (simp add: int_truediv_def round_double_def)
  show ?thesis
    using count len rate
    by (simp add: process_both_def process_front_def process_back_def
        process_side_decode_failed [OF sample_decode_failed] Let_def)
qed

theorem success_always_true_witness:
  "zones_computable sample_processor
   \<and> (\<exists>r s'. process_both sample_processor [] [] initial_state = (Inr r, s') \<and> success r)
   \<and> fst (process_both sample_processor [] [] initial_state)
       = Inr \<lparr>success = True,
              data = (fmempty ++\<^sub>f empty_result FRONT_FIELDS) ++\<^sub>f empty_result BACK_FIELDS,
              extracted_fields = 0, total_fields = 17, extraction_rate = PyFloat (Finite 0)\<rparr>"
  using success_always_true [of sample_processor "[]" "[]" initial_state]
    sample_zones_computable all_empty_result
  by blast

section \<open>Collaborators that are fixed functions\<close>

lemma roi_fixed:
  assumes "fixed_functions p"
  shows "fst (extract_text_from_roi p a s) = fst (extract_text_from_roi p a s')"
proof -
  have "fst (image_to_string p (to_rgb a) (world s)) = fst (image_to_string p (to_rgb a) (world s'))"
    using assms unfolding fixed_functions_def by blast
  then show ?thesis
    by (simp add: extract_text_from_roi_def invoke_eq Let_def split: sum.splits)
qed

lemma process_field_fixed:
  assumes "fixed_functions p"
  shows "fst (process_field p c zones field s) = fst (process_field p c zones field s')"
proof (cases "zones field")
  case None
  then show ?thesis by (simp add: process_field_def)
next
  case (Some z)
  show ?thesis
  proof (cases "zone_rect (target_width p) (target_height p) z")
    case (Inl e)
    then show ?thesis using Some by (simp add: process_field_def)
  next
    case (Inr rect)
    obtain x y w h where rect: "rect = (x, y, w, h)"
      by (cases rect) auto
    define crop where "crop = fst (crop_zone p c x y w h (world s))"
    have crop': "fst (crop_zone p c x y w h (world s')) = crop"
      using assms unfolding fixed_functions_def crop_def by blast
    define s1 where "s1 = snd (invoke (CropZone c x y w h) (crop_zone p c x y w h) s)"
    define s1' where "s1' = snd (invoke (CropZone c x y w h) (crop_zone p c x y w h) s')"
    have i: "invoke (CropZone c x y w h) (crop_zone p c x y w h) s = (crop, s1)"
      "invoke (CropZone c x y w h) (crop_zone p c x y w h) s' = (crop, s1')"
      using crop' by (simp_all add: s1_def s1'_def crop_def invoke_eq)
    define t where "t = fst (extract_text_from_roi p crop s1)"
    have t': "fst (extract_text_from_roi p crop s1') = t"
      unfolding t_def using assms by (rule roi_fixed)
    have clean: "fst (clean_text p t w1) = fst (clean_text p t w2)" for w1 w2
      using assms unfolding fixed_functions_def by blast
    have rect_z: "zone_rect (target_width p) (target_height p) z = Inr (x, y, w, h)"
      using Inr rect by simp
    have "fst (process_field p c zones field s)
          = (if size_nd crop = 0 then Inr []
             else Inr (fst (clean_text p t (world (snd (extract_text_from_roi p crop s1))))))"
      apply (simp add: process_field_def Some rect_z)
      apply (simp add: i(1))
      apply (simp add: case_prod_beta fst_invoke t_def)
      done
    moreover have "fst (process_field p c zones field s')
          = (if size_nd crop = 0 then Inr []
             else Inr (fst (clean_text p t (world (snd (extract_text_from_roi p crop s1'))))))"
      apply (simp add: process_field_def Some rect_z)
      apply (simp add: i(2))
      apply (simp add: case_prod_beta fst_invoke t')
      done
    ultimately show ?thesis
      using clean by simp
  qed
qed

lemma extract_fields_fixed:
  assumes "fixed_functions p"
  shows "fst (extract_fields p c zones field_names results s)
         = fst (extract_fields p c zones field_names results s')"
proof (induction field_names arbitrary: results s s')
  case Nil
  then show ?case by simp
next
  case (Cons field field_names)
  have same: "fst (process_field p c zones field s) = fst (process_field p c zones field s')"
    using assms by (rule process_field_fixed)
  show ?case
  proof (cases "fst (process_field p c zones field s)")
    case (Inl e)
    then show ?thesis
      using same by (simp add: case_prod_beta)
  next
    case (Inr t)
    then show ?thesis
      using same Cons.IH [of "fmupd field t results"] by (simp add: case_prod_beta)
  qed
qed

lemma fixed_functionsD:
  assumes "fixed_functions p"
  shows "fst (decode_base64 p a w) = fst (decode_base64 p a w')"
    and "fst (detector_process p img w) = fst (detector_process p img w')"
    and "fst (normalize_document p img w) = fst (normalize_document p img w')"
    and "fst (load_zones p side w) = fst (load_zones p side w')"
    and "fst (validate_all p results w) = fst (validate_all p results w')"
  using assms unfolding fixed_functions_def by metis+

lemma process_side_fixed:
  assumes fixed: "fixed_functions p"
  shows "fst (process_side p b side field_names s) = fst (process_side p b side field_names s')"
proof -
  have decode_same: "fst (decode_base64 p b (world s)) = fst (decode_base64 p b (world s'))"
    using fixed by (rule fixed_functionsD)
  show ?thesis
  proof (cases "decode_failed p b s")
    case True
    then have "decode_failed p b s'"
      using decode_same by (simp add: decode_failed_def)
    then show ?thesis
      using True by (simp add: process_side_decode_failed)
  next
    case False
    then obtain img where img: "fst (decode_base64 p b (world s)) = Some img"
      and size: "size_nd img \<noteq> 0"
      by (auto simp: decode_failed_def split: option.splits)
    have img': "fst (decode_base64 p b (world s')) = Some img"
      using img decode_same by simp
    obtain s1 s1' where decode:
      "invoke (DecodeBase64 b) (decode_base64 p b) s = (Some img, s1)"
      "invoke (DecodeBase64 b) (decode_base64 p b) s' = (Some img, s1')"
      using img img' by (simp add: invoke_eq)
    define cd where "cd = fst (detector_process p img (world s1))"
    have cd': "fst (detector_process p img (world s1')) = cd"
      unfolding cd_def using fixed by (rule fixed_functionsD)
    obtain s2 s2' where detect:
      "invoke (DetectorProcess img) (detector_process p img) s1 = ((fst cd, snd cd), s2)"
      "invoke (DetectorProcess img) (detector_process p img) s1' = ((fst cd, snd cd), s2')"
      using cd' by (simp add: invoke_eq cd_def)
    define corrected where
      "corrected = (if \<not> snd cd then fst (normalize_document p img (world s2)) else fst cd)"
    have normalize_same:
      "fst (normalize_document p img (world s2')) = fst (normalize_document p img (world s2))"
      using fixed by (rule fixed_functionsD)
    define s3 where
      "s3 = snd (if \<not> snd cd then invoke (NormalizeDocument img) (normalize_document p img) s2
                 else (fst cd, s2))"
    define s3' where
      "s3' = snd (if \<not> snd cd then invoke (NormalizeDocument img) (normalize_document p img) s2'
                  else (fst cd, s2'))"
    have normalize:
      "(if \<not> snd cd then invoke (NormalizeDocument img) (normalize_document p img) s2
        else (fst cd, s2)) = (corrected, s3)"
      "(if \<not> snd cd then invoke (NormalizeDocument img) (normalize_document p img) s2'
        else (fst cd, s2')) = (corrected, s3')"
      using normalize_same by (simp_all add: invoke_eq corrected_def s3_def s3'_def)
    define zones where "zones = fst (load_zones p side (world s3))"
    have zones': "fst (load_zones p side (world s3')) = zones"
      unfolding zones_def using fixed by (rule fixed_functionsD)
    obtain s4 s4' where load:
      "invoke (LoadZones side) (load_zones p side) s3 = (zones, s4)"
      "invoke (LoadZones side) (load_zones p side) s3' = (zones, s4')"
      using zones' by (simp add: invoke_eq zones_def)
    have validate: "(case invoke (ValidateAll results) (validate_all p results) s5 of
                       (results', s6) \<Rightarrow> (Inr results', s6))
                    = (Inr (fst (validate_all p results (world s5))),
                       snd (invoke (ValidateAll results) (validate_all p results) s5))"
      for results s5
      by (simp add: case_prod_beta fst_invoke)
    have run: "process_side p b side field_names s
          = (case extract_fields p corrected zones field_names fmempty s4 of
               (Inl e, s5) \<Rightarrow> (Inl e, s5)
             | (Inr results, s5) \<Rightarrow>
                 (Inr (fst (validate_all p results (world s5))),
                  snd (invoke (ValidateAll results) (validate_all p results) s5)))"
      unfolding process_side_def decode prod.case option.case detect normalize load validate
      using size by simp
    have run': "process_side p b side field_names s'
          = (case extract_fields p corrected zones field_names fmempty s4' of
               (Inl e, s5) \<Rightarrow> (Inl e, s5)
             | (Inr results, s5) \<Rightarrow>
                 (Inr (fst (validate_all p results (world s5))),
                  snd (invoke (ValidateAll results) (validate_all p results) s5)))"
      unfolding process_side_def decode prod.case option.case detect normalize load validate
      using size by simp
    have loop: "fst (extract_fields p corrected zones field_names fmempty s4)
                = fst (extract_fields p corrected zones field_names fmempty s4')"
      using fixed by (rule extract_fields_fixed)
    have valid: "fst (validate_all p results w1) = fst (validate_all p results w2)"
      for results w1 w2
      using fixed by (rule fixed_functionsD)
    show ?thesis
    proof (cases "fst (extract_fields p corrected zones field_names fmempty s4)")
      case (Inl e)
      then show ?thesis
        using loop unfolding run run' by (simp add: case_prod_beta)
    next
      case (Inr results)
      then show ?thesis
        using loop valid [of results] unfolding run run' by (simp add: case_prod_beta)
    qed
  qed
qed

lemma process_both_fixed:
  assumes fixed: "fixed_functions p"
  shows "fst (process_both p f b s) = fst (process_both p f b s')"
proof -
  have front_same: "fst (process_front p f s) = fst (process_front p f s')"
    unfolding process_front_def using fixed by (rule process_side_fixed)
  have back_same: "fst (process_back p b s1) = fst (process_back p b s1')" for s1 s1'
    unfolding process_back_def using fixed by (rule process_side_fixed)
  show ?thesis
  proof (cases "fst (process_front p f s)")
    case (Inl e)
    then show ?thesis
      using front_same by (simp add: process_both_def case_prod_beta)
  next
    case front_value: (Inr front_results)
    show ?thesis
    proof (cases "fst (process_back p b (snd (process_front p f s)))")
      case (Inl e)
      then show ?thesis
        using front_value front_same
          back_same [of "snd (process_front p f s)" "snd (process_front p f s')"]
        by (simp add: process_both_def case_prod_beta)
    next
      case (Inr back_results)
      then show ?thesis
        using front_value front_same
          back_same [of "snd (process_front p f s)" "snd (process_front p f s')"]
        by (simp add: process_both_def case_prod_beta Let_def split: sum.splits)
    qed
  qed
qed

lemma sample_fixed_functions: "fixed_functions sample_processor"
  by (simp add: fixed_functions_def sample_processor_def)

section \<open>C9: determinism\<close>

text \<open>
  C9: when every collaborator is a fixed function of its arguments, the value of
  \<open>process_both\<close> (the combined result, or the exception raised) depends on the two
  inputs only and not on the state in which the call starts. In particular a second call
  with the same inputs, started in the state the first call has left, returns the same
  value as the first.
\<close>

theorem process_both_deterministic:
  assumes "fixed_functions p"
  shows "fst (process_both p front_base64 back_base64 s')
         = fst (process_both p front_base64 back_base64 s)
         \<and> fst (process_both p front_base64 back_base64
                  (snd (process_both p front_base64 back_base64 s)))
           = fst (process_both p front_base64 back_base64 s)"
  using process_both_fixed [OF assms] by blast

theorem process_both_deterministic_witness:
  "fixed_functions sample_processor
   \<and> fst (process_both sample_processor ''front scan'' ''back scan''
            (snd (process_both sample_processor ''front scan'' ''back scan'' initial_state)))
     = fst (process_both sample_processor ''front scan'' ''back scan'' initial_state)
   \<and> world (snd (process_both sample_processor [] [] initial_state)) \<noteq> world initial_state"
proof -
  have "world (snd (process_both sample_processor [] [] initial_state)) = 2"
    by (simp add: process_both_def process_front_def process_back_def case_prod_beta Let_def
        process_side_decode_failed [OF sample_decode_failed] invoke_eq initial_state_def
        split: sum.splits)
  then show ?thesis
    using process_both_deterministic [OF sample_fixed_functions,
        of "''front scan''" "''back scan''" _ initial_state]
      sample_fixed_functions
    by (simp add: initial_state_def)
qed

end
